theory Spec2Isabelle
  imports Main "HOL-Library.Word"
begin

section \<open>pkg/util/ec2: default host names of EC2 instances\<close>

text \<open>
  The two prefix tables of \<^verbatim>\<open>ec2.go\<close> (package-level variables, lines 33 and 34).
\<close>

definition oldDefaultPrefixes :: "string list" where
  "oldDefaultPrefixes = [''ip-'', ''domu'']"

definition defaultPrefixes :: "string list" where
  "defaultPrefixes = [''ip-'', ''domu'', ''ec2amaz-'']"

text \<open>
  \<^verbatim>\<open>strings.HasPrefix(s, prefix)\<close> of the Go standard library:
  \<^verbatim>\<open>len(s) >= len(prefix) && s[0:len(prefix)] == prefix\<close>, on byte strings.
\<close>

definition HasPrefix :: "string \<Rightarrow> string \<Rightarrow> bool" where
  "HasPrefix s pre = (length pre \<le> length s \<and> take (length pre) s = pre)"

text \<open>
  \<^verbatim>\<open>strings.ToLower\<close> belongs to the Go standard library and maps every Unicode
  letter to its lower case through tables that are not part of this repository. The
  functions below therefore take the lower-casing function as the parameter \<open>lower\<close>;
  what is proved about them holds for every such function. \<open>asciiToLower\<close> is the
  instance that agrees with \<^verbatim>\<open>strings.ToLower\<close> on ASCII host names: the bytes
  \<open>A\<close> to \<open>Z\<close> (65 to 90) move up by 32, every other byte stays.
\<close>

definition asciiLowerChar :: "char \<Rightarrow> char" where
  "asciiLowerChar c =
     (let n = of_char c :: nat in if 65 \<le> n \<and> n \<le> 90 then char_of (n + 32) else c)"

definition asciiToLower :: "string \<Rightarrow> string" where
  "asciiToLower s = map asciiLowerChar s"

text \<open>
  \<^verbatim>\<open>isDefaultHostname\<close> (lines 294 to 310): lower the host name, choose the prefix
  table, and run the loop \<^verbatim>\<open>isDefault = isDefault || strings.HasPrefix(hostname, val)\<close>
  over the table from the start value \<^verbatim>\<open>false\<close>. The loop is the \<open>fold\<close>.
\<close>

definition isDefaultHostname :: "(string \<Rightarrow> string) \<Rightarrow> string \<Rightarrow> bool \<Rightarrow> bool" where
  "isDefaultHostname lower hostname useWindowsPrefix =
     (let hostname' = lower hostname;
          prefixes = (if useWindowsPrefix then defaultPrefixes else oldDefaultPrefixes)
      in fold (\<lambda>val isDefault. isDefault \<or> HasPrefix hostname' val) prefixes False)"

text \<open>\<^verbatim>\<open>IsDefaultHostnameForIntake\<close> (line 285).\<close>

definition IsDefaultHostnameForIntake :: "(string \<Rightarrow> string) \<Rightarrow> string \<Rightarrow> bool" where
  "IsDefaultHostnameForIntake lower hostname = isDefaultHostname lower hostname False"

text \<open>\<^verbatim>\<open>IsWindowsDefaultHostname\<close> (line 290).\<close>

definition IsWindowsDefaultHostname :: "(string \<Rightarrow> string) \<Rightarrow> string \<Rightarrow> bool" where
  "IsWindowsDefaultHostname lower hostname =
     (\<not> isDefaultHostname lower hostname False \<and> isDefaultHostname lower hostname True)"

section \<open>pkg/ebpf: the tracer of platforms without kernel instrumentation\<close>

subsection \<open>Types the tracer's fields refer to\<close>

text \<open>
  Modelled from the spec: the types \<^verbatim>\<open>ConnectionStats\<close>, \<^verbatim>\<open>ConnectionFilter\<close>,
  \<^verbatim>\<open>PortMapping\<close>, \<^verbatim>\<open>Config\<close> and \<^verbatim>\<open>Connections\<close> are used by the
  \<^verbatim>\<open>Tracer\<close> struct and its methods, and are declared in files of package
  \<^verbatim>\<open>ebpf\<close> that are not among the sources. They follow section 3 (data model) and
  section 6 (configuration boundary) of the specification.

  A tuple is (local address, local port, remote address, remote port, protocol); the
  identity of a connection is the tuple together with the owning process identifier.
  Addresses are 32-bit words so that a CIDR rule can be matched on leading bits.
  The direction of a connection is metadata that no rule of the specification
  computes or reads; it is left out of \<open>ConnectionStats\<close>.
\<close>

datatype protocol = TCP | UDP

record tuple =
  laddr :: "32 word"
  lport :: nat
  raddr :: "32 word"
  rport :: nat
  proto :: protocol

record ConnectionStats =
  cs_tuple :: tuple
  cs_pid :: nat
  sent_bytes :: nat
  recv_bytes :: nat
  retransmits :: nat
  last_updated :: nat
  closed :: bool

text \<open>
  A match rule is an address or CIDR block together with a port pattern. A CIDR block
  of prefix length \<open>n\<close> matches the addresses that share its leading \<open>n\<close> bits.
\<close>

datatype port_pattern = AnyPort | OnePort nat

record ConnectionFilter =
  cf_base :: "32 word"
  cf_bits :: nat
  cf_port :: port_pattern

text \<open>The mapping from (namespace, internal port) to the externally visible port.\<close>

type_synonym PortMapping = "((nat \<times> nat) \<times> nat) list"

record Config =
  cfg_sourceExcludes :: "ConnectionFilter list"
  cfg_destExcludes :: "ConnectionFilter list"
  cfg_staleness :: nat
  cfg_capacity :: nat

record Connections =
  Conns :: "ConnectionStats list"

text \<open>
  Modelled from the spec: the variable \<^verbatim>\<open>ErrNotImplemented\<close> is declared outside
  the sources. Section 7 names the two failures that reach a caller of the query
  methods: the platform has no kernel instrumentation, and the engine was stopped.
\<close>

datatype error = ErrNotImplemented | StoppedEngineError

text \<open>A value of the Go type \<^verbatim>\<open>interface{}\<close>, as far as telemetry maps hold one.\<close>

datatype iface = IInt int | IStr string | IMap "(string \<times> iface) list"

text \<open>\<^verbatim>\<open>sync.Mutex\<close>; its zero value is an unlocked mutex.\<close>

datatype Mutex = Unlocked | Locked

subsection \<open>The struct and its methods\<close>

text \<open>
  The \<^verbatim>\<open>Tracer\<close> struct, field by field. The two pointers are \<open>option\<close>s
  (\<open>None\<close> is \<^verbatim>\<open>nil\<close>), the \<^verbatim>\<open>int64\<close> counters are 64-bit words read with
  \<open>sint\<close>, and a slice is a list (the \<^verbatim>\<open>nil\<close> slice is the empty list).
\<close>

record Tracer =
  config :: "Config option"
  portMapping :: "PortMapping option"
  perfReceived :: "64 word"
  perfLost :: "64 word"
  skippedConns :: "64 word"
  pidCollisions :: "64 word"
  expiredTCPConns :: "64 word"
  buffer :: "ConnectionStats list"
  bufferLock :: Mutex
  sourceExcludes :: "ConnectionFilter list"
  destExcludes :: "ConnectionFilter list"

text \<open>\<^verbatim>\<open>CurrentKernelVersion\<close>: a \<^verbatim>\<open>uint32\<close> and an error, \<open>None\<close> for \<^verbatim>\<open>nil\<close>.\<close>

definition CurrentKernelVersion :: "32 word \<times> error option" where
  "CurrentKernelVersion = (1, None)"

text \<open>
  The composite literal \<^verbatim>\<open>Tracer{}\<close>: every field has the zero value of its type.
\<close>

definition zeroTracer :: Tracer where
  "zeroTracer =
     \<lparr> config = None, portMapping = None,
       perfReceived = 0, perfLost = 0, skippedConns = 0, pidCollisions = 0,
       expiredTCPConns = 0, buffer = [], bufferLock = Unlocked,
       sourceExcludes = [], destExcludes = [] \<rparr>"

text \<open>
  \<^verbatim>\<open>NewTracer\<close> returns the address of a fresh \<^verbatim>\<open>Tracer{}\<close> and a \<^verbatim>\<open>nil\<close>
  error; its argument, a pointer that may be \<^verbatim>\<open>nil\<close>, is not read.
\<close>

definition NewTracer :: "Config option \<Rightarrow> Tracer option \<times> error option" where
  "NewTracer cfg = (Some zeroTracer, None)"

text \<open>
  \<^verbatim>\<open>Stop\<close> has an empty body: as a function on the state of the tracer it returns
  the state it was given.
\<close>

definition Stop :: "Tracer \<Rightarrow> Tracer" where
  "Stop t = t"

text \<open>
  The four query methods. Each returns a pair of a result, \<open>None\<close> for \<^verbatim>\<open>nil\<close>,
  and an error. None of them reads its receiver or its argument.
\<close>

definition GetActiveConnections :: "Tracer \<Rightarrow> string \<Rightarrow> Connections option \<times> error option" where
  "GetActiveConnections t clientID = (None, Some ErrNotImplemented)"

definition GetStats :: "Tracer \<Rightarrow> (string \<times> iface) list option \<times> error option" where
  "GetStats t = (None, Some ErrNotImplemented)"

definition DebugNetworkState :: "Tracer \<Rightarrow> string \<Rightarrow> (string \<times> iface) list option \<times> error option" where
  "DebugNetworkState t clientID = (None, Some ErrNotImplemented)"

definition DebugNetworkMaps :: "Tracer \<Rightarrow> Connections option \<times> error option" where
  "DebugNetworkMaps t = (None, Some ErrNotImplemented)"

section \<open>The connection-tracking engine of the specification\<close>

text \<open>
  Modelled from the spec: the connection table, the connection filter, the port
  resolver, the bounded buffer, the event consumer and the expiration sweeper are not
  among the sources; the sources hold only the fields of the \<^verbatim>\<open>Tracer\<close> struct
  that keep their state (the telemetry counters, \<^verbatim>\<open>buffer\<close>, the two exclude lists,
  \<^verbatim>\<open>portMapping\<close>). The definitions of this section follow sections 3, 4.1 to 4.5
  and 6 of the specification. The engine runs one operation at a time: the lock that
  guards the buffer is not taken in this model.
\<close>

subsection \<open>State\<close>

type_synonym identity = "tuple \<times> nat"

definition ident :: "ConnectionStats \<Rightarrow> identity" where
  "ident c = (cs_tuple c, cs_pid c)"

text \<open>The byte and retransmit deltas an event carries.\<close>

record delta =
  d_sent :: nat
  d_recv :: nat
  d_retransmits :: nat

datatype event_kind = Open | StatsUpdate | Close

text \<open>
  A decoded record of the kernel stream: tuple, pid, event kind and deltas. \<open>ev_netns\<close>
  is the translated namespace the tuple refers to, when it refers to one.
\<close>

record event =
  ev_tuple :: tuple
  ev_netns :: "nat option"
  ev_pid :: nat
  ev_kind :: event_kind
  ev_delta :: delta

text \<open>
  The engine keeps the fields of the \<^verbatim>\<open>Tracer\<close> struct, the active table, and the two
  numbers supplied at construction: the capacity of the bounded buffer and the
  staleness threshold.
\<close>

record Engine = Tracer +
  active :: "ConnectionStats list"
  capacity :: nat
  staleness :: nat

definition NewEngine :: "Config \<Rightarrow> PortMapping \<Rightarrow> Engine" where
  "NewEngine cfg pm =
     \<lparr> config = Some cfg, portMapping = Some pm,
       perfReceived = 0, perfLost = 0, skippedConns = 0, pidCollisions = 0,
       expiredTCPConns = 0, buffer = [], bufferLock = Unlocked,
       sourceExcludes = cfg_sourceExcludes cfg, destExcludes = cfg_destExcludes cfg,
       active = [], capacity = cfg_capacity cfg, staleness = cfg_staleness cfg \<rparr>"

subsection \<open>Connection filter (4.5)\<close>

definition matches :: "ConnectionFilter \<Rightarrow> 32 word \<Rightarrow> nat \<Rightarrow> bool" where
  "matches f a p =
     (drop_bit (32 - cf_bits f) a = drop_bit (32 - cf_bits f) (cf_base f) \<and>
      (case cf_port f of AnyPort \<Rightarrow> True | OnePort q \<Rightarrow> p = q))"

text \<open>
  A connection is dropped when a source exclude matches its local end or a destination
  exclude matches its remote end; in each list the first matching rule decides.
\<close>

definition excluded :: "Engine \<Rightarrow> tuple \<Rightarrow> bool" where
  "excluded e t =
     (find (\<lambda>f. matches f (laddr t) (lport t)) (sourceExcludes e) \<noteq> None \<or>
      find (\<lambda>f. matches f (raddr t) (rport t)) (destExcludes e) \<noteq> None)"

subsection \<open>Port resolver (4.4)\<close>

text \<open>
  The externally visible port of a namespace-local port, or the same port where no
  mapping exists; the absence of a mapping is not an error.
\<close>

definition resolvePort :: "PortMapping option \<Rightarrow> nat option \<Rightarrow> tuple \<Rightarrow> tuple" where
  "resolvePort pm ns t =
     (case pm of
        None \<Rightarrow> t
      | Some m \<Rightarrow>
          (case ns of
             None \<Rightarrow> t
           | Some n \<Rightarrow>
               (case map_of m (n, lport t) of
                  None \<Rightarrow> t
                | Some p \<Rightarrow> t\<lparr>lport := p\<rparr>)))"

subsection \<open>Connection table (4.1)\<close>

text \<open>The entry created by the first event of an identity: its counters are the deltas.\<close>

definition freshConn :: "nat \<Rightarrow> identity \<Rightarrow> delta \<Rightarrow> ConnectionStats" where
  "freshConn now i d =
     \<lparr> cs_tuple = fst i, cs_pid = snd i,
       sent_bytes = d_sent d, recv_bytes = d_recv d, retransmits = d_retransmits d,
       last_updated = now, closed = False \<rparr>"

text \<open>A later event of the same identity changes the entry in place.\<close>

definition bump :: "nat \<Rightarrow> delta \<Rightarrow> ConnectionStats \<Rightarrow> ConnectionStats" where
  "bump now d c =
     c\<lparr> sent_bytes := sent_bytes c + d_sent d,
        recv_bytes := recv_bytes c + d_recv d,
        retransmits := retransmits c + d_retransmits d,
        last_updated := now \<rparr>"

text \<open>
  \<open>upsert\<close> creates or updates the entry of an identity. An entry of the same tuple
  with another pid is a collision: the counter goes up by one and the entry of the
  other owner leaves the table, so the owner seen last is kept and its counters start
  from the deltas of its own event.
\<close>

definition upsert :: "nat \<Rightarrow> identity \<Rightarrow> delta \<Rightarrow> Engine \<Rightarrow> Engine" where
  "upsert now i d e =
     (let collided = (find (\<lambda>c. cs_tuple c = fst i \<and> cs_pid c \<noteq> snd i) (active e) \<noteq> None);
          kept = filter (\<lambda>c. \<not> (cs_tuple c = fst i \<and> cs_pid c \<noteq> snd i)) (active e);
          table = (if find (\<lambda>c. ident c = i) kept \<noteq> None
                   then map (\<lambda>c. if ident c = i then bump now d c else c) kept
                   else kept @ [freshConn now i d])
      in e\<lparr> pidCollisions := (if collided then pidCollisions e + 1 else pidCollisions e),
            active := table \<rparr>)"

text \<open>\<open>remove\<close> deletes the entry of an identity and returns it, \<open>None\<close> when there is none.\<close>

definition remove :: "identity \<Rightarrow> Engine \<Rightarrow> ConnectionStats option \<times> Engine" where
  "remove i e =
     (case find (\<lambda>c. ident c = i) (active e) of
        None \<Rightarrow> (None, e)
      | Some c \<Rightarrow> (Some c, e\<lparr>active := filter (\<lambda>c. ident c \<noteq> i) (active e)\<rparr>))"

definition snapshot :: "Engine \<Rightarrow> ConnectionStats list" where
  "snapshot e = active e"

subsection \<open>Bounded buffer\<close>

text \<open>
  The entry goes to the end of the sequence; when the sequence was already at capacity,
  the oldest entry, at the front, is given up for it.
\<close>

definition bufferAppend :: "nat \<Rightarrow> 'a list \<Rightarrow> 'a \<Rightarrow> 'a list" where
  "bufferAppend cap buf x = (if length buf < cap then buf @ [x] else drop 1 (buf @ [x]))"

text \<open>An entry that left the table is appended as closed.\<close>

definition appendClosed :: "ConnectionStats \<Rightarrow> Engine \<Rightarrow> Engine" where
  "appendClosed c e = e\<lparr>buffer := bufferAppend (capacity e) (buffer e) (c\<lparr>closed := True\<rparr>)\<rparr>"

subsection \<open>Event consumer (4.2)\<close>

text \<open>
  One record of the stream; \<open>None\<close> is a record that failed to decode. The order is
  that of the specification: decode, filter, resolve ports, apply to the table. Every
  decoded record counts as received, whatever the filter says.
\<close>

definition processRecord :: "nat \<Rightarrow> event option \<Rightarrow> Engine \<Rightarrow> Engine" where
  "processRecord now r e =
     (case r of
        None \<Rightarrow> e\<lparr>perfLost := perfLost e + 1\<rparr>
      | Some ev \<Rightarrow>
          (let e1 = e\<lparr>perfReceived := perfReceived e + 1\<rparr> in
           if excluded e1 (ev_tuple ev) then e1\<lparr>skippedConns := skippedConns e1 + 1\<rparr>
           else
             (let i = (resolvePort (portMapping e1) (ev_netns ev) (ev_tuple ev), ev_pid ev) in
              case ev_kind ev of
                Close \<Rightarrow>
                  (case remove i e1 of
                     (None, e2) \<Rightarrow> e2
                   | (Some c, e2) \<Rightarrow> appendClosed c e2)
              | Open \<Rightarrow> upsert now i (ev_delta ev) e1
              | StatsUpdate \<Rightarrow> upsert now i (ev_delta ev) e1)))"

subsection \<open>Expiration sweeper (4.3)\<close>

definition stale :: "nat \<Rightarrow> nat \<Rightarrow> ConnectionStats \<Rightarrow> bool" where
  "stale threshold now c = (threshold < now - last_updated c)"

text \<open>The synthesized close of one entry: remove, append to the buffer, count.\<close>

definition expire :: "ConnectionStats \<Rightarrow> Engine \<Rightarrow> Engine" where
  "expire c e =
     (case remove (ident c) e of
        (None, e') \<Rightarrow> e'
      | (Some c', e') \<Rightarrow> (appendClosed c' e')\<lparr>expiredTCPConns := expiredTCPConns e' + 1\<rparr>)"

definition sweep :: "nat \<Rightarrow> Engine \<Rightarrow> Engine" where
  "sweep now e = fold expire (filter (stale (staleness e) now) (active e)) e"

subsection \<open>Runs of the engine\<close>

datatype input = Ingest nat "event option" | Sweep nat

fun step :: "Engine \<Rightarrow> input \<Rightarrow> Engine" where
  "step e (Ingest now r) = processRecord now r e"
| "step e (Sweep now) = sweep now e"

definition run :: "Engine \<Rightarrow> input list \<Rightarrow> Engine" where
  "run e ins = foldl step e ins"

text \<open>No two entries of a table share an identity.\<close>

definition uniqueIdentities :: "ConnectionStats list \<Rightarrow> bool" where
  "uniqueIdentities cs = distinct (map ident cs)"

text \<open>The buffer of the engine holds no more entries than its capacity.\<close>

definition withinCapacity :: "Engine \<Rightarrow> bool" where
  "withinCapacity e = (length (buffer e) \<le> capacity e)"

subsection \<open>Snapshot API and life cycle (4.6)\<close>

text \<open>
  Modelled from the spec: the query methods and \<open>stop\<close> of the engine that attaches
  kernel instrumentation are not among the sources (the sources hold the stub of the
  platforms without it). The definitions follow section 4.6.

  The state machine is Uninitialized, Running, Stopped. Construction attaches the
  instrumentation and starts the consumer and the sweeper, so an engine exists from
  the state Running on; Uninitialized is the time before construction.
\<close>

datatype lifecycle = Running | Stopped

text \<open>
  What \<open>getActiveConnections\<close> and \<open>debugNetworkMaps\<close> return: the connections, as in
  \<open>Connections\<close>, together with the current telemetry.
\<close>

record Snapshot = Connections +
  Telemetry :: "(string \<times> iface) list"

text \<open>
  The engine behind the query boundary: the tracking state, the phase of the state
  machine, and for every client that has called the time of its last call (its cursor).
\<close>

record Service =
  engine :: Engine
  phase :: lifecycle
  cursors :: "(string \<times> nat) list"

definition NewService :: "Config \<Rightarrow> PortMapping \<Rightarrow> Service" where
  "NewService cfg pm = \<lparr> engine = NewEngine cfg pm, phase = Running, cursors = [] \<rparr>"

text \<open>The telemetry mapping: the five counters under the names of their fields.\<close>

definition telemetry :: "Engine \<Rightarrow> (string \<times> iface) list" where
  "telemetry e =
     [(''perfReceived'', IInt (sint (perfReceived e))),
      (''perfLost'', IInt (sint (perfLost e))),
      (''skippedConns'', IInt (sint (skippedConns e))),
      (''pidCollisions'', IInt (sint (pidCollisions e))),
      (''expiredTCPConns'', IInt (sint (expiredTCPConns e)))]"

text \<open>
  The retained history is the closed entries of the bounded buffer followed by the
  active table. A client with no cursor starts from its beginning; a client with a
  cursor gets the entries updated at or after its last call.
\<close>

definition retained :: "Engine \<Rightarrow> ConnectionStats list" where
  "retained e = buffer e @ active e"

definition changedSince :: "nat option \<Rightarrow> ConnectionStats \<Rightarrow> bool" where
  "changedSince cursor c = (case cursor of None \<Rightarrow> True | Some since \<Rightarrow> since \<le> last_updated c)"

text \<open>
  The four queries. In the phase Stopped each fails with the stopped-engine error and
  returns no data. In the phase Running \<open>getActiveConnections\<close> answers and moves the
  cursor of the client to the time of the call; the other three read and change nothing.
\<close>

definition getActiveConnections ::
  "nat \<Rightarrow> string \<Rightarrow> Service \<Rightarrow> (Snapshot option \<times> error option) \<times> Service" where
  "getActiveConnections now clientID s =
     (case phase s of
        Stopped \<Rightarrow> ((None, Some StoppedEngineError), s)
      | Running \<Rightarrow>
          ((Some \<lparr> Conns = filter (changedSince (map_of (cursors s) clientID)) (retained (engine s)),
                   Telemetry = telemetry (engine s) \<rparr>, None),
           s\<lparr>cursors := (clientID, now) # filter (\<lambda>kv. fst kv \<noteq> clientID) (cursors s)\<rparr>))"

definition getStats :: "Service \<Rightarrow> (string \<times> iface) list option \<times> error option" where
  "getStats s =
     (case phase s of
        Stopped \<Rightarrow> (None, Some StoppedEngineError)
      | Running \<Rightarrow> (Some (telemetry (engine s)), None))"

definition debugNetworkState :: "string \<Rightarrow> Service \<Rightarrow> (string \<times> iface) list option \<times> error option" where
  "debugNetworkState clientID s =
     (case phase s of
        Stopped \<Rightarrow> (None, Some StoppedEngineError)
      | Running \<Rightarrow>
          (Some ((case map_of (cursors s) clientID of
                    None \<Rightarrow> []
                  | Some since \<Rightarrow> [(''cursor'', IInt (int since))]) @
                 [(''active'', IInt (int (length (active (engine s))))),
                  (''closed'', IInt (int (length (buffer (engine s))))),
                  (''telemetry'', IMap (telemetry (engine s)))]),
           None))"

definition debugNetworkMaps :: "Service \<Rightarrow> Snapshot option \<times> error option" where
  "debugNetworkMaps s =
     (case phase s of
        Stopped \<Rightarrow> (None, Some StoppedEngineError)
      | Running \<Rightarrow>
          (Some \<lparr> Conns = active (engine s), Telemetry = telemetry (engine s) \<rparr>, None))"

text \<open>
  \<open>stop\<close> releases the probes and the background tasks: the phase becomes Stopped, and in
  that phase the consumer and the sweeper no longer run (\<open>feed\<close> does nothing).
\<close>

definition stop :: "Service \<Rightarrow> Service" where
  "stop s = s\<lparr>phase := Stopped\<rparr>"

definition feed :: "Service \<Rightarrow> input \<Rightarrow> Service" where
  "feed s i = (case phase s of Running \<Rightarrow> s\<lparr>engine := step (engine s) i\<rparr> | Stopped \<Rightarrow> s)"

text \<open>Everything that can happen to the engine, and the state it leaves.\<close>

datatype request =
    Feed input
  | ReqGetActiveConnections nat string
  | ReqGetStats
  | ReqDebugNetworkState string
  | ReqDebugNetworkMaps
  | ReqStop

fun serve :: "Service \<Rightarrow> request \<Rightarrow> Service" where
  "serve s (Feed i) = feed s i"
| "serve s (ReqGetActiveConnections now clientID) = snd (getActiveConnections now clientID s)"
| "serve s ReqGetStats = s"
| "serve s (ReqDebugNetworkState clientID) = s"
| "serve s ReqDebugNetworkMaps = s"
| "serve s ReqStop = stop s"

subsection \<open>The scenario of the specification\<close>

text \<open>
  The tuple A:1234 -> B:80 of the scenarios in section 8, a configuration that excludes
  the loopback block 127.0.0.0/8 as a source, keeps entries for 30 time units and holds
  two closed entries, and the events of the scenarios.
\<close>

definition scenarioConfig :: Config where
  "scenarioConfig =
     \<lparr> cfg_sourceExcludes = [\<lparr>cf_base = 0x7F000000, cf_bits = 8, cf_port = AnyPort\<rparr>],
       cfg_destExcludes = [],
       cfg_staleness = 30, cfg_capacity = 2 \<rparr>"

definition scenarioTuple :: tuple where
  "scenarioTuple = \<lparr> laddr = 0x0A000001, lport = 1234, raddr = 0x0A000002, rport = 80, proto = TCP \<rparr>"

definition scenarioEvent :: "nat \<Rightarrow> event_kind \<Rightarrow> nat \<Rightarrow> event" where
  "scenarioEvent pid kind sent =
     \<lparr> ev_tuple = scenarioTuple, ev_netns = None, ev_pid = pid, ev_kind = kind,
       ev_delta = \<lparr> d_sent = sent, d_recv = 0, d_retransmits = 0 \<rparr> \<rparr>"

section \<open>Default host names: what the code computes\<close>

lemma HasPrefix_append: "HasPrefix s pre \<longleftrightarrow> (\<exists>r. s = pre @ r)"
  unfolding HasPrefix_def
  by (metis append_eq_conv_conj append_take_drop_id length_append le_add1)

lemma isDefaultHostname_old:
  "isDefaultHostname lower h False \<longleftrightarrow> HasPrefix (lower h) ''ip-'' \<or> HasPrefix (lower h) ''domu''"
  by (simp add: isDefaultHostname_def oldDefaultPrefixes_def Let_def)

lemma isDefaultHostname_windows:
  "isDefaultHostname lower h True \<longleftrightarrow>
     HasPrefix (lower h) ''ip-'' \<or> HasPrefix (lower h) ''domu'' \<or> HasPrefix (lower h) ''ec2amaz-''"
  by (simp add: isDefaultHostname_def defaultPrefixes_def Let_def)

lemma ec2amaz_excludes_old:
  assumes "HasPrefix s ''ec2amaz-''"
  shows "\<not> HasPrefix s ''ip-''" and "\<not> HasPrefix s ''domu''"
  using assms by (auto simp: HasPrefix_append)

lemma lower_ex: "asciiToLower ''EC2AMAZ-Ab12'' = ''ec2amaz-ab12''"
  by code_simp

lemma lower_ex2: "asciiToLower ''ip-10-0-0-1'' = ''ip-10-0-0-1''"
  by code_simp

lemma lower_ex3: "asciiToLower ''DomU-12'' = ''domu-12''"
  by code_simp

text \<open>
  C10. For every host name \<open>h\<close>, \<^verbatim>\<open>IsWindowsDefaultHostname(h)\<close> is true exactly when
  the lower-case form of \<open>h\<close> starts with \<open>ec2amaz-\<close>: the Windows table is the old table
  plus that one prefix, and a string that starts with \<open>ec2amaz-\<close> starts with neither
  \<open>ip-\<close> nor \<open>domu\<close>. The statement holds for every lower-casing function, so for
  \<^verbatim>\<open>strings.ToLower\<close>.
\<close>

theorem IsWindowsDefaultHostname_iff:
  "IsWindowsDefaultHostname lower h \<longleftrightarrow> HasPrefix (lower h) ''ec2amaz-''"
proof
  assume "IsWindowsDefaultHostname lower h"
  then show "HasPrefix (lower h) ''ec2amaz-''"
    by (auto simp: IsWindowsDefaultHostname_def isDefaultHostname_old isDefaultHostname_windows)
next
  assume w: "HasPrefix (lower h) ''ec2amaz-''"
  from ec2amaz_excludes_old[OF w] w show "IsWindowsDefaultHostname lower h"
    by (simp add: IsWindowsDefaultHostname_def isDefaultHostname_old isDefaultHostname_windows)
qed

theorem IsWindowsDefaultHostname_iff_witness:
  "IsWindowsDefaultHostname asciiToLower ''EC2AMAZ-Ab12'' \<and>
   \<not> IsWindowsDefaultHostname asciiToLower ''ip-10-0-0-1'' \<and>
   \<not> IsWindowsDefaultHostname asciiToLower ''DomU-12''"
  using IsWindowsDefaultHostname_iff [of asciiToLower "''EC2AMAZ-Ab12''"]
    IsWindowsDefaultHostname_iff [of asciiToLower "''ip-10-0-0-1''"]
    IsWindowsDefaultHostname_iff [of asciiToLower "''DomU-12''"]
  by (simp add: lower_ex lower_ex2 lower_ex3 HasPrefix_def)

section \<open>The stub tracer: what the code computes\<close>

text \<open>
  C1. On the platform without kernel instrumentation, each of the four query methods,
  for every tracer and every client id, returns a \<^verbatim>\<open>nil\<close> result and the error
  \<^verbatim>\<open>ErrNotImplemented\<close>: the four calls fail in the same way.
\<close>

theorem queries_not_implemented:
  "GetActiveConnections t clientID = (None, Some ErrNotImplemented) \<and>
   GetStats t = (None, Some ErrNotImplemented) \<and>
   DebugNetworkState t clientID' = (None, Some ErrNotImplemented) \<and>
   DebugNetworkMaps t = (None, Some ErrNotImplemented) \<and>
   snd (GetActiveConnections t clientID) = snd (GetStats t) \<and>
   snd (GetStats t) = snd (DebugNetworkState t clientID') \<and>
   snd (DebugNetworkState t clientID') = snd (DebugNetworkMaps t)"
  by (simp add: GetActiveConnections_def GetStats_def DebugNetworkState_def DebugNetworkMaps_def)

theorem queries_not_implemented_witness:
  "GetActiveConnections zeroTracer ''client-1'' = (None, Some ErrNotImplemented) \<and>
   GetStats zeroTracer = (None, Some ErrNotImplemented) \<and>
   DebugNetworkState zeroTracer [] = (None, Some ErrNotImplemented) \<and>
   DebugNetworkMaps zeroTracer = (None, Some ErrNotImplemented)"
  using queries_not_implemented [of zeroTracer "''client-1''" "[]"]
  by simp

text \<open>
  C3. \<^verbatim>\<open>Stop\<close> is idempotent: on every state of the tracer, stopping twice leaves the
  state that stopping once leaves, and \<open>Stop \<circ> Stop = Stop\<close> as functions.
\<close>

theorem Stop_idempotent:
  "Stop (Stop t) = Stop t \<and> Stop \<circ> Stop = Stop"
proof
  show "Stop (Stop t) = Stop t" by (simp add: Stop_def)
  show "Stop \<circ> Stop = Stop" by (rule ext) (simp add: Stop_def)
qed

theorem Stop_idempotent_witness:
  "Stop (Stop (zeroTracer\<lparr>perfReceived := 7\<rparr>)) = Stop (zeroTracer\<lparr>perfReceived := 7\<rparr>)"
  using Stop_idempotent [of "zeroTracer\<lparr>perfReceived := 7\<rparr>"]
  by simp

text \<open>
  C8. \<^verbatim>\<open>NewTracer\<close> succeeds on every argument, the \<^verbatim>\<open>nil\<close> configuration
  included: it returns a tracer, not \<^verbatim>\<open>nil\<close>, and a \<^verbatim>\<open>nil\<close> error. Every field of
  the tracer has its zero value: the counters are 0, the buffer and both exclude lists
  are empty, and the configuration that was passed is not kept.
\<close>

theorem NewTracer_zero_valued:
  "NewTracer cfg =
     (Some \<lparr> config = None, portMapping = None,
             perfReceived = 0, perfLost = 0, skippedConns = 0, pidCollisions = 0,
             expiredTCPConns = 0, buffer = [], bufferLock = Unlocked,
             sourceExcludes = [], destExcludes = [] \<rparr>,
      None) \<and>
   NewTracer cfg = NewTracer None"
  by (simp add: NewTracer_def zeroTracer_def)

theorem NewTracer_zero_valued_witness:
  "fst (NewTracer (Some scenarioConfig)) = Some zeroTracer \<and>
   snd (NewTracer (Some scenarioConfig)) = None \<and>
   fst (NewTracer None) = Some zeroTracer"
  using NewTracer_zero_valued [of "Some scenarioConfig"] NewTracer_zero_valued [of None]
  by (simp add: zeroTracer_def)

text \<open>
  C9. \<^verbatim>\<open>CurrentKernelVersion\<close> of the stub returns the version 1 and a \<^verbatim>\<open>nil\<close>
  error: it does not fail, although the platform is the one without an implementation.
\<close>

theorem CurrentKernelVersion_one:
  "CurrentKernelVersion = (1, None) \<and> unat (fst CurrentKernelVersion) = 1 \<and>
   snd CurrentKernelVersion \<noteq> Some ErrNotImplemented"
  by (simp add: CurrentKernelVersion_def)

theorem CurrentKernelVersion_one_witness:
  "fst CurrentKernelVersion = 1 \<and> snd CurrentKernelVersion = None"
  using CurrentKernelVersion_one
  by (simp add: CurrentKernelVersion_def)

section \<open>The engine of the specification: invariants and scenarios\<close>

subsection \<open>The table\<close>

lemma find_None_set: "find P xs = None \<longleftrightarrow> (\<forall>x \<in> set xs. \<not> P x)"
  by (auto simp: find_None_iff)

lemma ident_bump: "ident (bump now d c) = ident c"
  by (simp add: ident_def bump_def)

lemma ident_freshConn: "ident (freshConn now i d) = i"
  by (simp add: ident_def freshConn_def)

lemma active_upsert:
  "active (upsert now i d e) =
     (let kept = filter (\<lambda>c. \<not> (cs_tuple c = fst i \<and> cs_pid c \<noteq> snd i)) (active e)
      in if i \<in> ident ` set kept
         then map (\<lambda>c. if ident c = i then bump now d c else c) kept
         else kept @ [freshConn now i d])"
  by (auto simp: upsert_def Let_def find_None_set)

lemma map_ident_bump:
  "map ident (map (\<lambda>c. if ident c = i then bump now d c else c) cs) = map ident cs"
  by (induction cs) (simp_all add: ident_bump)

lemma unique_upsert:
  assumes "uniqueIdentities (active e)"
  shows "uniqueIdentities (active (upsert now i d e))"
proof -
  let ?kept = "filter (\<lambda>c. \<not> (cs_tuple c = fst i \<and> cs_pid c \<noteq> snd i)) (active e)"
  have k: "distinct (map ident ?kept)"
    using assms by (simp add: uniqueIdentities_def distinct_map_filter)
  show ?thesis
  proof (cases "i \<in> ident ` set ?kept")
    case True
    then have "active (upsert now i d e) = map (\<lambda>c. if ident c = i then bump now d c else c) ?kept"
      by (simp add: active_upsert)
    then show ?thesis
      using k by (simp add: uniqueIdentities_def map_ident_bump del: map_map)
  next
    case False
    then have "active (upsert now i d e) = ?kept @ [freshConn now i d]"
      by (simp add: active_upsert)
    then show ?thesis
      using k False by (simp add: uniqueIdentities_def ident_freshConn)
  qed
qed

lemma active_remove: "active (snd (remove i e)) = filter (\<lambda>c. ident c \<noteq> i) (active e)"
proof (cases "find (\<lambda>c. ident c = i) (active e)")
  case None
  then have "\<forall>c \<in> set (active e). ident c \<noteq> i"
    by (simp add: find_None_set)
  then have "filter (\<lambda>c. ident c \<noteq> i) (active e) = active e"
    by (simp add: filter_id_conv)
  with None show ?thesis by (simp add: remove_def)
next
  case (Some c)
  then show ?thesis by (simp add: remove_def)
qed

lemma unique_filter: "uniqueIdentities cs \<Longrightarrow> uniqueIdentities (filter P cs)"
  by (simp add: uniqueIdentities_def distinct_map_filter)

lemma unique_remove:
  "uniqueIdentities (active e) \<Longrightarrow> uniqueIdentities (active (snd (remove i e)))"
  by (simp add: active_remove unique_filter)

lemma active_appendClosed: "active (appendClosed c e) = active e"
  by (simp add: appendClosed_def)

lemma active_expire: "active (expire c e) = filter (\<lambda>c'. ident c' \<noteq> ident c) (active e)"
proof -
  obtain r e' where r: "remove (ident c) e = (r, e')" by (cases "remove (ident c) e")
  then have "active e' = filter (\<lambda>c'. ident c' \<noteq> ident c) (active e)"
    using active_remove [of "ident c" e] by simp
  with r show ?thesis
    by (cases r) (simp_all add: expire_def active_appendClosed)
qed

lemma unique_fold_expire:
  "uniqueIdentities (active e) \<Longrightarrow> uniqueIdentities (active (fold expire cs e))"
  by (induction cs arbitrary: e) (simp_all add: active_expire unique_filter)

lemma unique_sweep:
  "uniqueIdentities (active e) \<Longrightarrow> uniqueIdentities (active (sweep now e))"
  by (simp add: sweep_def unique_fold_expire)

lemma active_close:
  "active (case remove i e of (None, e2) \<Rightarrow> e2 | (Some c, e2) \<Rightarrow> appendClosed c e2)
     = filter (\<lambda>c. ident c \<noteq> i) (active e)"
proof -
  obtain r e' where r: "remove i e = (r, e')" by (cases "remove i e")
  then have "active e' = filter (\<lambda>c. ident c \<noteq> i) (active e)"
    using active_remove [of i e] by simp
  with r show ?thesis
    by (cases r) (simp_all add: active_appendClosed)
qed

lemma unique_processRecord:
  assumes "uniqueIdentities (active e)"
  shows "uniqueIdentities (active (processRecord now r e))"
proof (cases r)
  case None
  with assms show ?thesis by (simp add: processRecord_def)
next
  case (Some ev)
  let ?e1 = "e\<lparr>perfReceived := perfReceived e + 1\<rparr>"
  have u1: "uniqueIdentities (active ?e1)" using assms by simp
  show ?thesis
  proof (cases "excluded ?e1 (ev_tuple ev)")
    case True
    with Some assms show ?thesis by (simp add: processRecord_def Let_def)
  next
    case False
    show ?thesis
    proof (cases "ev_kind ev")
      case Close
      with Some False u1 show ?thesis
        by (simp add: processRecord_def Let_def active_close unique_filter)
    next
      case Open
      with Some False unique_upsert [OF u1] show ?thesis
        by (simp add: processRecord_def Let_def)
    next
      case StatsUpdate
      with Some False unique_upsert [OF u1] show ?thesis
        by (simp add: processRecord_def Let_def)
    qed
  qed
qed

lemma unique_step: "uniqueIdentities (active e) \<Longrightarrow> uniqueIdentities (active (step e i))"
  by (cases i) (simp_all add: unique_processRecord unique_sweep)

lemma unique_run: "uniqueIdentities (active e) \<Longrightarrow> uniqueIdentities (active (run e ins))"
  unfolding run_def
  by (induction ins arbitrary: e) (simp_all add: unique_step)

lemma unique_NewEngine: "uniqueIdentities (active (NewEngine cfg pm))"
  by (simp add: NewEngine_def uniqueIdentities_def)

subsection \<open>The buffer and the frame of each operation\<close>

lemma length_bufferAppend:
  "length buf \<le> cap \<Longrightarrow> length (bufferAppend cap buf x) \<le> cap"
  by (cases buf) (auto simp: bufferAppend_def)

lemma length_foldl_bufferAppend:
  "length buf \<le> cap \<Longrightarrow> length (foldl (bufferAppend cap) buf xs) \<le> cap"
  by (induction xs arbitrary: buf) (simp_all add: length_bufferAppend)

lemma bufferAppend_full:
  assumes "length buf = cap" and "0 < cap"
  shows "bufferAppend cap buf x = tl buf @ [x]"
proof -
  from assms have "buf \<noteq> []" by auto
  then show ?thesis using assms by (cases buf) (simp_all add: bufferAppend_def)
qed

lemma foldl_bufferAppend:
  "foldl (bufferAppend cap) [] xs = drop (length xs - cap) xs"
proof (induction xs rule: rev_induct)
  case Nil
  show ?case by simp
next
  case (snoc x xs)
  show ?case
  proof (cases "length xs < cap")
    case True
    with snoc show ?thesis by (simp add: bufferAppend_def)
  next
    case False
    then have "bufferAppend cap (drop (length xs - cap) xs) x
                 = drop 1 (drop (length xs - cap) xs @ [x])"
      by (simp add: bufferAppend_def)
    also have "\<dots> = drop (Suc (length xs) - cap) (xs @ [x])"
      using False by (simp add: Suc_diff_le)
    finally show ?thesis using snoc by simp
  qed
qed

text \<open>Frame lemmas: what each operation leaves alone.\<close>

lemma upsert_frame:
  "buffer (upsert now i d e) = buffer e" "capacity (upsert now i d e) = capacity e"
  "staleness (upsert now i d e) = staleness e" "portMapping (upsert now i d e) = portMapping e"
  "sourceExcludes (upsert now i d e) = sourceExcludes e"
  "destExcludes (upsert now i d e) = destExcludes e"
  by (simp_all add: upsert_def Let_def)

lemma appendClosed_frame:
  "capacity (appendClosed c e) = capacity e"
  "staleness (appendClosed c e) = staleness e" "portMapping (appendClosed c e) = portMapping e"
  "sourceExcludes (appendClosed c e) = sourceExcludes e"
  "destExcludes (appendClosed c e) = destExcludes e"
  "pidCollisions (appendClosed c e) = pidCollisions e"
  by (simp_all add: appendClosed_def)

lemma withinCapacity_appendClosed:
  "withinCapacity e \<Longrightarrow> withinCapacity (appendClosed c e)"
  by (simp add: withinCapacity_def appendClosed_def length_bufferAppend)

lemma remove_result_frame:
  assumes "remove i e = (r, e2)"
  shows "buffer e2 = buffer e" "capacity e2 = capacity e" "staleness e2 = staleness e"
    "portMapping e2 = portMapping e" "sourceExcludes e2 = sourceExcludes e"
    "destExcludes e2 = destExcludes e" "pidCollisions e2 = pidCollisions e"
  using assms by (auto simp: remove_def split: option.splits)

lemma close_frame:
  fixes i e
  defines "e' \<equiv> (case remove i e of (None, e2) \<Rightarrow> e2 | (Some c, e2) \<Rightarrow> appendClosed c e2)"
  shows "capacity e' = capacity e" "staleness e' = staleness e" "portMapping e' = portMapping e"
    "sourceExcludes e' = sourceExcludes e" "destExcludes e' = destExcludes e"
    "pidCollisions e' = pidCollisions e"
    "withinCapacity e \<Longrightarrow> withinCapacity e'"
proof -
  obtain r e2 where r: "remove i e = (r, e2)" by (cases "remove i e")
  note f = remove_result_frame [OF r]
  have w: "withinCapacity e \<Longrightarrow> withinCapacity e2"
    by (simp add: withinCapacity_def f)
  have e': "e' = (case r of None \<Rightarrow> e2 | Some c \<Rightarrow> appendClosed c e2)"
    by (simp add: e'_def r)
  show "capacity e' = capacity e" "staleness e' = staleness e" "portMapping e' = portMapping e"
    "sourceExcludes e' = sourceExcludes e" "destExcludes e' = destExcludes e"
    "pidCollisions e' = pidCollisions e"
    by (simp_all add: e' f appendClosed_frame split: option.split)
  show "withinCapacity e \<Longrightarrow> withinCapacity e'"
    using w by (simp add: e' withinCapacity_appendClosed split: option.split)
qed

lemma expire_frame:
  "capacity (expire c e) = capacity e" "staleness (expire c e) = staleness e"
  "portMapping (expire c e) = portMapping e"
  "sourceExcludes (expire c e) = sourceExcludes e" "destExcludes (expire c e) = destExcludes e"
  "pidCollisions (expire c e) = pidCollisions e"
  "withinCapacity e \<Longrightarrow> withinCapacity (expire c e)"
proof -
  obtain r e2 where r: "remove (ident c) e = (r, e2)" by (cases "remove (ident c) e")
  note f = remove_result_frame [OF r]
  have w: "withinCapacity e \<Longrightarrow> withinCapacity e2"
    by (simp add: withinCapacity_def f)
  have x: "expire c e =
      (case r of None \<Rightarrow> e2
       | Some c' \<Rightarrow> (appendClosed c' e2)\<lparr>expiredTCPConns := expiredTCPConns e2 + 1\<rparr>)"
    by (simp add: expire_def r)
  show "capacity (expire c e) = capacity e" "staleness (expire c e) = staleness e"
    "portMapping (expire c e) = portMapping e"
    "sourceExcludes (expire c e) = sourceExcludes e" "destExcludes (expire c e) = destExcludes e"
    "pidCollisions (expire c e) = pidCollisions e"
    by (simp_all add: x f appendClosed_frame split: option.split)
  show "withinCapacity e \<Longrightarrow> withinCapacity (expire c e)"
    using w withinCapacity_appendClosed [of e2]
    by (simp add: x withinCapacity_def appendClosed_frame split: option.split)
qed

lemma fold_expire_frame:
  "capacity (fold expire cs e) = capacity e \<and> staleness (fold expire cs e) = staleness e \<and>
   portMapping (fold expire cs e) = portMapping e \<and>
   sourceExcludes (fold expire cs e) = sourceExcludes e \<and>
   destExcludes (fold expire cs e) = destExcludes e \<and>
   pidCollisions (fold expire cs e) = pidCollisions e \<and>
   (withinCapacity e \<longrightarrow> withinCapacity (fold expire cs e))"
  by (induction cs arbitrary: e) (simp_all add: expire_frame)

lemma sweep_frame:
  "capacity (sweep now e) = capacity e" "staleness (sweep now e) = staleness e"
  "portMapping (sweep now e) = portMapping e"
  "sourceExcludes (sweep now e) = sourceExcludes e" "destExcludes (sweep now e) = destExcludes e"
  "pidCollisions (sweep now e) = pidCollisions e"
  "withinCapacity e \<Longrightarrow> withinCapacity (sweep now e)"
  using fold_expire_frame [of "filter (stale (staleness e) now) (active e)" e]
  by (simp_all add: sweep_def)

lemma processRecord_frame:
  "capacity (processRecord now r e) = capacity e"
  "staleness (processRecord now r e) = staleness e"
  "portMapping (processRecord now r e) = portMapping e"
  "sourceExcludes (processRecord now r e) = sourceExcludes e"
  "destExcludes (processRecord now r e) = destExcludes e"
  by (simp_all add: processRecord_def Let_def upsert_frame close_frame
      split: option.split event_kind.split)

lemma withinCapacity_processRecord:
  assumes "withinCapacity e"
  shows "withinCapacity (processRecord now r e)"
proof -
  have e1: "withinCapacity (e\<lparr>perfReceived := perfReceived e + 1\<rparr>)"
    using assms by (simp add: withinCapacity_def)
  have up: "withinCapacity (upsert now i d (e\<lparr>perfReceived := perfReceived e + 1\<rparr>))" for i d
    using e1 by (simp add: withinCapacity_def upsert_frame)
  show ?thesis
    using assms e1 up close_frame(7) [OF e1]
    by (simp add: processRecord_def Let_def withinCapacity_def
        split: option.split event_kind.split)
qed

lemma step_frame:
  "capacity (step e i) = capacity e" "staleness (step e i) = staleness e"
  "portMapping (step e i) = portMapping e"
  "sourceExcludes (step e i) = sourceExcludes e" "destExcludes (step e i) = destExcludes e"
  "withinCapacity e \<Longrightarrow> withinCapacity (step e i)"
  by (cases i; simp add: processRecord_frame sweep_frame withinCapacity_processRecord)+

lemma run_frame:
  "capacity (run e ins) = capacity e \<and> staleness (run e ins) = staleness e \<and>
   portMapping (run e ins) = portMapping e \<and>
   sourceExcludes (run e ins) = sourceExcludes e \<and>
   destExcludes (run e ins) = destExcludes e \<and>
   (withinCapacity e \<longrightarrow> withinCapacity (run e ins))"
  unfolding run_def
  by (induction ins arbitrary: e) (simp_all add: step_frame)

lemma withinCapacity_NewEngine: "withinCapacity (NewEngine cfg pm)"
  by (simp add: withinCapacity_def NewEngine_def)

subsection \<open>Collisions, sweeps and closes\<close>

lemma excluded_cong:
  "sourceExcludes e' = sourceExcludes e \<Longrightarrow> destExcludes e' = destExcludes e \<Longrightarrow>
   excluded e' t = excluded e t"
  by (simp add: excluded_def)

lemma remove_unknown:
  assumes "i \<notin> ident ` set (active e)"
  shows "remove i e = (None, e)"
proof -
  from assms have "find (\<lambda>c. ident c = i) (active e) = None"
    by (auto simp: find_None_set)
  then show ?thesis by (simp add: remove_def)
qed

lemma processRecord_upsert:
  assumes "ev_kind ev \<noteq> Close" and "\<not> excluded e (ev_tuple ev)"
  shows "processRecord now (Some ev) e =
           upsert now (resolvePort (portMapping e) (ev_netns ev) (ev_tuple ev), ev_pid ev)
             (ev_delta ev) (e\<lparr>perfReceived := perfReceived e + 1\<rparr>)"
proof -
  have "\<not> excluded (e\<lparr>perfReceived := perfReceived e + 1\<rparr>) (ev_tuple ev)"
    using assms(2) by (simp add: excluded_def)
  then show ?thesis
    using assms(1) by (cases "ev_kind ev") (simp_all add: processRecord_def Let_def)
qed

lemma upsert_tuple_entries:
  "\<forall>c \<in> set (active (upsert now i d e)).
     cs_tuple c = fst i \<longrightarrow> cs_pid c = snd i \<and> last_updated c = now"
proof -
  let ?kept = "filter (\<lambda>c. \<not> (cs_tuple c = fst i \<and> cs_pid c \<noteq> snd i)) (active e)"
  have k: "\<forall>c \<in> set ?kept. cs_tuple c = fst i \<longrightarrow> ident c = i"
    by (auto simp: ident_def prod_eq_iff)
  show ?thesis
  proof (cases "i \<in> ident ` set ?kept")
    case True
    then have a: "active (upsert now i d e) = map (\<lambda>c. if ident c = i then bump now d c else c) ?kept"
      by (simp add: active_upsert)
    show ?thesis
      unfolding a using k by (auto simp: bump_def ident_def)
  next
    case False
    then have a: "active (upsert now i d e) = ?kept @ [freshConn now i d]"
      by (simp add: active_upsert)
    from False have "\<forall>c \<in> set ?kept. ident c \<noteq> i"
      by force
    with k have "\<forall>c \<in> set ?kept. cs_tuple c \<noteq> fst i"
      by blast
    then show ?thesis
      unfolding a by (auto simp: freshConn_def)
  qed
qed

lemma upsert_has_entry: "\<exists>c \<in> set (active (upsert now i d e)). ident c = i"
proof -
  let ?kept = "filter (\<lambda>c. \<not> (cs_tuple c = fst i \<and> cs_pid c \<noteq> snd i)) (active e)"
  show ?thesis
  proof (cases "i \<in> ident ` set ?kept")
    case True
    then obtain c where c: "c \<in> set ?kept" "ident c = i" by auto
    from True have a: "active (upsert now i d e) = map (\<lambda>c. if ident c = i then bump now d c else c) ?kept"
      by (simp add: active_upsert)
    from c have "bump now d c \<in> set (active (upsert now i d e))"
      unfolding a by force
    then show ?thesis using c(2) ident_bump by blast
  next
    case False
    then have a: "active (upsert now i d e) = ?kept @ [freshConn now i d]"
      by (simp add: active_upsert)
    show ?thesis unfolding a by (simp add: ident_freshConn)
  qed
qed

lemma upsert_collision:
  assumes ex: "\<exists>c \<in> set (active e). cs_tuple c = t"
    and other: "\<forall>c \<in> set (active e). cs_tuple c = t \<longrightarrow> cs_pid c \<noteq> p"
  shows "filter (\<lambda>c. cs_tuple c = t) (active (upsert now (t, p) d e)) = [freshConn now (t, p) d]"
    and "pidCollisions (upsert now (t, p) d e) = pidCollisions e + 1"
proof -
  let ?kept = "filter (\<lambda>c. \<not> (cs_tuple c = t \<and> cs_pid c \<noteq> p)) (active e)"
  have k: "\<forall>c \<in> set ?kept. cs_tuple c \<noteq> t"
    using other by auto
  then have "(t, p) \<notin> ident ` set ?kept"
    by (auto simp: ident_def)
  then have a: "active (upsert now (t, p) d e) = ?kept @ [freshConn now (t, p) d]"
    by (simp add: active_upsert)
  have "filter (\<lambda>c. cs_tuple c = t) ?kept = []"
    using k by (auto simp: filter_empty_conv)
  then show "filter (\<lambda>c. cs_tuple c = t) (active (upsert now (t, p) d e)) = [freshConn now (t, p) d]"
    unfolding a by (simp add: freshConn_def)
  from ex other have "find (\<lambda>c. cs_tuple c = t \<and> cs_pid c \<noteq> p) (active e) \<noteq> None"
    by (auto simp: find_None_set)
  then show "pidCollisions (upsert now (t, p) d e) = pidCollisions e + 1"
    by (simp add: upsert_def Let_def)
qed

lemma fold_expire_keeps:
  assumes "\<forall>c \<in> set cs. cs_tuple c \<noteq> t"
  shows "filter (\<lambda>c. cs_tuple c = t) (active (fold expire cs e))
           = filter (\<lambda>c. cs_tuple c = t) (active e)"
  using assms
proof (induction cs arbitrary: e)
  case Nil
  show ?case by simp
next
  case (Cons c cs)
  have "filter (\<lambda>c'. cs_tuple c' = t) (active (expire c e))
          = filter (\<lambda>c'. cs_tuple c' = t) (active e)"
    using Cons.prems by (auto simp: active_expire ident_def intro: filter_cong)
  with Cons show ?case by simp
qed

lemma sweep_keeps:
  assumes "\<forall>c \<in> set (active e). cs_tuple c = t \<longrightarrow> \<not> stale (staleness e) now c"
  shows "filter (\<lambda>c. cs_tuple c = t) (active (sweep now e))
           = filter (\<lambda>c. cs_tuple c = t) (active e)"
  unfolding sweep_def using assms by (intro fold_expire_keeps) auto

lemma sweeps_keep:
  assumes "\<forall>s \<in> set sweeps. \<forall>c \<in> set (active e). cs_tuple c = t \<longrightarrow> \<not> stale (staleness e) s c"
  shows "filter (\<lambda>c. cs_tuple c = t) (active (run e (map Sweep sweeps)))
           = filter (\<lambda>c. cs_tuple c = t) (active e) \<and>
         pidCollisions (run e (map Sweep sweeps)) = pidCollisions e"
  using assms unfolding run_def
proof (induction sweeps arbitrary: e)
  case Nil
  show ?case by simp
next
  case (Cons s sweeps)
  have keep: "filter (\<lambda>c. cs_tuple c = t) (active (sweep s e)) = filter (\<lambda>c. cs_tuple c = t) (active e)"
    using Cons.prems by (intro sweep_keeps) simp
  have "set (filter (\<lambda>c. cs_tuple c = t) (active (sweep s e)))
          = set (filter (\<lambda>c. cs_tuple c = t) (active e))"
    by (simp only: keep)
  then have same: "\<And>c. c \<in> set (active (sweep s e)) \<Longrightarrow> cs_tuple c = t \<Longrightarrow> c \<in> set (active e)"
    by auto
  have "\<forall>s' \<in> set sweeps. \<forall>c \<in> set (active (sweep s e)).
          cs_tuple c = t \<longrightarrow> \<not> stale (staleness (sweep s e)) s' c"
    using Cons.prems same by (simp add: sweep_frame)
  from Cons.IH [OF this] keep show ?case
    by (simp add: sweep_frame)
qed

subsection \<open>The buffer is first in, first out\<close>

lemma drop_oldest_after_append:
  "cap \<le> length zs \<Longrightarrow>
   drop 1 (drop (length zs - cap) zs @ [x]) = drop (Suc (length zs) - cap) (zs @ [x])"
  by (simp add: Suc_diff_le)

lemma foldl_bufferAppend_from:
  "length buf \<le> cap \<Longrightarrow>
   foldl (bufferAppend cap) buf xs = drop (length buf + length xs - cap) (buf @ xs)"
proof (induction xs rule: rev_induct)
  case Nil
  then show ?case by simp
next
  case (snoc x xs)
  let ?k = "length buf + length xs - cap"
  have ih: "foldl (bufferAppend cap) buf xs = drop ?k (buf @ xs)"
    using snoc by simp
  have step: "foldl (bufferAppend cap) buf (xs @ [x]) = bufferAppend cap (drop ?k (buf @ xs)) x"
    using ih by simp
  show ?case
  proof (cases "length buf + length xs < cap")
    case True
    then have "bufferAppend cap (drop ?k (buf @ xs)) x = buf @ xs @ [x]"
      by (simp add: bufferAppend_def)
    with True show ?thesis
      unfolding step by simp
  next
    case False
    define ys where "ys = drop ?k (buf @ xs)"
    have "length ys = cap"
      using False by (simp add: ys_def)
    then have "bufferAppend cap ys x = drop 1 (ys @ [x])"
      by (simp add: bufferAppend_def)
    then have "bufferAppend cap (drop ?k (buf @ xs)) x = drop 1 (drop ?k (buf @ xs) @ [x])"
      by (simp only: ys_def)
    also have "\<dots> = drop (Suc (length buf + length xs) - cap) ((buf @ xs) @ [x])"
      using False drop_oldest_after_append [of cap "buf @ xs" x] by (simp del: drop_append)
    finally show ?thesis
      unfolding step by simp
  qed
qed

lemma appendClosed_room:
  "length (buffer e) < capacity e \<Longrightarrow>
   buffer (appendClosed c e) = buffer e @ [c\<lparr>closed := True\<rparr>]"
  by (simp add: appendClosed_def bufferAppend_def)

lemma appendClosed_full:
  "length (buffer e) = capacity e \<Longrightarrow> 0 < capacity e \<Longrightarrow>
   buffer (appendClosed c e) = tl (buffer e) @ [c\<lparr>closed := True\<rparr>]"
  by (simp add: appendClosed_def bufferAppend_full)

lemma appendClosed_last:
  assumes "withinCapacity e"
  shows "buffer (appendClosed c e)
           = drop (Suc (length (buffer e)) - capacity e) (buffer e @ [c\<lparr>closed := True\<rparr>])"
proof -
  have "length (buffer e) \<le> capacity e"
    using assms by (simp add: withinCapacity_def)
  from foldl_bufferAppend_from [OF this, of "[c\<lparr>closed := True\<rparr>]"]
  show ?thesis by (simp add: appendClosed_def)
qed

lemma fold_appendClosed:
  "capacity (fold appendClosed cs e) = capacity e \<and>
   buffer (fold appendClosed cs e)
     = foldl (bufferAppend (capacity e)) (buffer e) (map (\<lambda>c. c\<lparr>closed := True\<rparr>) cs)"
proof (induction cs arbitrary: e)
  case Nil
  show ?case by simp
next
  case (Cons c cs)
  have "capacity (appendClosed c e) = capacity e"
    by (simp add: appendClosed_def)
  moreover have "buffer (appendClosed c e) = bufferAppend (capacity e) (buffer e) (c\<lparr>closed := True\<rparr>)"
    by (simp add: appendClosed_def)
  ultimately show ?case
    using Cons [of "appendClosed c e"] by simp
qed

lemma fold_appendClosed_last:
  assumes "withinCapacity e"
  shows "buffer (fold appendClosed cs e)
           = drop (length (buffer e) + length cs - capacity e)
               (buffer e @ map (\<lambda>c. c\<lparr>closed := True\<rparr>) cs)"
proof -
  have "length (buffer e) \<le> capacity e"
    using assms by (simp add: withinCapacity_def)
  from foldl_bufferAppend_from [OF this, of "map (\<lambda>c. c\<lparr>closed := True\<rparr>) cs"]
  show ?thesis using fold_appendClosed [of cs e] by simp
qed

lemma remove_known:
  assumes "find (\<lambda>c. ident c = i) (active e) = Some c"
  shows "remove i e = (Some c, e\<lparr>active := filter (\<lambda>c. ident c \<noteq> i) (active e)\<rparr>)"
  using assms by (simp add: remove_def)

lemma close_known_buffer:
  assumes k: "ev_kind ev = Close"
    and a: "\<not> excluded e (ev_tuple ev)"
    and f: "find (\<lambda>c. ident c = (resolvePort (portMapping e) (ev_netns ev) (ev_tuple ev), ev_pid ev))
              (active e) = Some c"
    and w: "withinCapacity e"
  shows "buffer (processRecord now (Some ev) e)
           = drop (Suc (length (buffer e)) - capacity e) (buffer e @ [c\<lparr>closed := True\<rparr>])"
proof -
  let ?i = "(resolvePort (portMapping e) (ev_netns ev) (ev_tuple ev), ev_pid ev)"
  let ?u = "e\<lparr>perfReceived := perfReceived e + 1\<rparr>"
  let ?v = "?u\<lparr>active := filter (\<lambda>c. ident c \<noteq> ?i) (active ?u)\<rparr>"
  have x: "\<not> excluded ?u (ev_tuple ev)"
    using a by (simp add: excluded_def)
  have "find (\<lambda>c. ident c = ?i) (active ?u) = Some c"
    using f by simp
  then have r: "remove ?i ?u = (Some c, ?v)"
    by (rule remove_known)
  have p: "processRecord now (Some ev) e = appendClosed c ?v"
    using k x r by (simp add: processRecord_def Let_def)
  have "withinCapacity ?v"
    using w by (simp add: withinCapacity_def)
  from appendClosed_last [OF this, of c] show ?thesis
    by (simp add: p)
qed

lemma expire_known_buffer:
  assumes f: "find (\<lambda>c'. ident c' = ident c) (active e) = Some c'"
    and w: "withinCapacity e"
  shows "buffer (expire c e)
           = drop (Suc (length (buffer e)) - capacity e) (buffer e @ [c'\<lparr>closed := True\<rparr>]) \<and>
         expiredTCPConns (expire c e) = expiredTCPConns e + 1"
proof -
  let ?v = "e\<lparr>active := filter (\<lambda>c'. ident c' \<noteq> ident c) (active e)\<rparr>"
  have r: "remove (ident c) e = (Some c', ?v)"
    using f by (rule remove_known)
  have x: "expire c e = (appendClosed c' ?v)\<lparr>expiredTCPConns := expiredTCPConns ?v + 1\<rparr>"
    by (simp add: expire_def r)
  have "withinCapacity ?v"
    using w by (simp add: withinCapacity_def)
  from appendClosed_last [OF this, of c'] show ?thesis
    by (simp add: x)
qed

subsection \<open>A collision leaves the other tuples alone\<close>

lemma upsert_collision_others:
  assumes other: "\<forall>c \<in> set (active e). cs_tuple c = t \<longrightarrow> cs_pid c \<noteq> p"
  shows "filter (\<lambda>c. cs_tuple c \<noteq> t) (active (upsert now (t, p) d e))
           = filter (\<lambda>c. cs_tuple c \<noteq> t) (active e)"
proof -
  let ?kept = "filter (\<lambda>c. \<not> (cs_tuple c = t \<and> cs_pid c \<noteq> p)) (active e)"
  have k: "\<forall>c \<in> set ?kept. cs_tuple c \<noteq> t"
    using other by auto
  then have "(t, p) \<notin> ident ` set ?kept"
    by (auto simp: ident_def)
  then have a: "active (upsert now (t, p) d e) = ?kept @ [freshConn now (t, p) d]"
    by (simp add: active_upsert)
  have "filter (\<lambda>c. cs_tuple c \<noteq> t) ?kept = filter (\<lambda>c. cs_tuple c \<noteq> t) (active e)"
    by (auto intro: filter_cong)
  then show ?thesis
    unfolding a by (simp add: freshConn_def)
qed

text \<open>
  Two records, with sweeps between them that run inside the staleness window of the
  first: the first leaves the tuple under its pid, the sweeps keep that entry, and
  the second collides with it.
\<close>

lemma collision_of_two_records:
  assumes kinds: "ev_kind ev1 \<noteq> Close" "ev_kind ev2 \<noteq> Close"
    and admitted: "\<not> excluded e (ev_tuple ev1)" "\<not> excluded e (ev_tuple ev2)"
    and same_tuple: "resolvePort (portMapping e) (ev_netns ev1) (ev_tuple ev1) = t"
      "resolvePort (portMapping e) (ev_netns ev2) (ev_tuple ev2) = t"
    and pids: "ev_pid ev1 \<noteq> ev_pid ev2"
    and window: "\<forall>s \<in> set sweeps. s - now1 \<le> staleness e"
    and e1: "e1 = run (processRecord now1 (Some ev1) e) (map Sweep sweeps)"
    and e2: "e2 = processRecord now2 (Some ev2) e1"
  shows "filter (\<lambda>c. cs_tuple c = t) (active e2) =
           [\<lparr> cs_tuple = t, cs_pid = ev_pid ev2,
              sent_bytes = d_sent (ev_delta ev2), recv_bytes = d_recv (ev_delta ev2),
              retransmits = d_retransmits (ev_delta ev2),
              last_updated = now2, closed = False \<rparr>] \<and>
         pidCollisions e2 = pidCollisions e1 + 1 \<and>
         pidCollisions e2 = pidCollisions (processRecord now1 (Some ev1) e) + 1"
proof -
  let ?e0 = "processRecord now1 (Some ev1) e"
  let ?u = "e\<lparr>perfReceived := perfReceived e + 1\<rparr>"
  have e0: "?e0 = upsert now1 (t, ev_pid ev1) (ev_delta ev1) ?u"
    using processRecord_upsert [OF kinds(1) admitted(1)] same_tuple(1) by simp
  have owner0: "\<forall>c \<in> set (active ?e0). cs_tuple c = t \<longrightarrow> cs_pid c = ev_pid ev1 \<and> last_updated c = now1"
    unfolding e0 using upsert_tuple_entries [of now1 "(t, ev_pid ev1)" "ev_delta ev1" ?u] by simp
  have ex0: "\<exists>c \<in> set (active ?e0). cs_tuple c = t"
    unfolding e0 using upsert_has_entry [of now1 "(t, ev_pid ev1)" "ev_delta ev1" ?u]
    by (auto simp: ident_def)
  have st0: "staleness ?e0 = staleness e"
    by (simp add: processRecord_frame)
  have fresh: "\<forall>s \<in> set sweeps. \<forall>c \<in> set (active ?e0). cs_tuple c = t \<longrightarrow> \<not> stale (staleness ?e0) s c"
    using owner0 window by (auto simp: stale_def st0)
  from sweeps_keep [OF fresh]
  have keep: "filter (\<lambda>c. cs_tuple c = t) (active e1) = filter (\<lambda>c. cs_tuple c = t) (active ?e0)"
    and count: "pidCollisions e1 = pidCollisions ?e0"
    by (simp_all add: e1)
  have owner1: "\<forall>c \<in> set (active e1). cs_tuple c = t \<longrightarrow> cs_pid c \<noteq> ev_pid ev2"
  proof (intro ballI impI)
    fix c assume c: "c \<in> set (active e1)" "cs_tuple c = t"
    then have "c \<in> set (filter (\<lambda>c. cs_tuple c = t) (active e1))" by simp
    then have "c \<in> set (filter (\<lambda>c. cs_tuple c = t) (active ?e0))" by (simp only: keep)
    then have "c \<in> set (active ?e0)" by simp
    with owner0 c(2) have "cs_pid c = ev_pid ev1" by simp
    with pids show "cs_pid c \<noteq> ev_pid ev2" by simp
  qed
  have ex1: "\<exists>c \<in> set (active e1). cs_tuple c = t"
  proof -
    from ex0 obtain c where c: "c \<in> set (active ?e0)" "cs_tuple c = t" by blast
    then have "c \<in> set (filter (\<lambda>c. cs_tuple c = t) (active ?e0))" by simp
    then have "c \<in> set (filter (\<lambda>c. cs_tuple c = t) (active e1))" by (simp only: keep)
    then have "c \<in> set (active e1)" by simp
    with c(2) show ?thesis by blast
  qed
  have fr: "portMapping e1 = portMapping e" "sourceExcludes e1 = sourceExcludes e"
    "destExcludes e1 = destExcludes e"
    using run_frame [of ?e0 "map Sweep sweeps"] by (simp_all add: e1 processRecord_frame)
  have adm: "\<not> excluded e1 (ev_tuple ev2)"
    using admitted(2) excluded_cong [OF fr(2) fr(3)] by simp
  let ?u1 = "e1\<lparr>perfReceived := perfReceived e1 + 1\<rparr>"
  have e2': "e2 = upsert now2 (t, ev_pid ev2) (ev_delta ev2) ?u1"
    using processRecord_upsert [OF kinds(2) adm] same_tuple(2) by (simp add: e2 fr(1))
  have a: "\<exists>c \<in> set (active ?u1). cs_tuple c = t" using ex1 by simp
  have b: "\<forall>c \<in> set (active ?u1). cs_tuple c = t \<longrightarrow> cs_pid c \<noteq> ev_pid ev2" using owner1 by simp
  from upsert_collision [OF a b, of now2 "ev_delta ev2"] count show ?thesis
    by (simp add: e2' freshConn_def)
qed

subsection \<open>The life cycle\<close>

lemma phase_stop: "phase (stop s) = Stopped"
  by (simp add: stop_def)

lemma serve_stopped: "phase s = Stopped \<Longrightarrow> serve s r = s"
  by (cases r) (simp_all add: feed_def getActiveConnections_def stop_def)

lemma foldl_serve_stopped: "phase s = Stopped \<Longrightarrow> foldl serve s rs = s"
  by (induction rs) (simp_all add: serve_stopped)

lemma running_queries_answer:
  assumes "phase s = Running"
  shows "snd (fst (getActiveConnections now clientID s)) = None"
    and "fst (fst (getActiveConnections now clientID s)) \<noteq> None"
    and "getStats s = (Some (telemetry (engine s)), None)"
    and "snd (debugNetworkState clientID s) = None"
    and "snd (debugNetworkMaps s) = None"
  using assms
  by (simp_all add: getActiveConnections_def getStats_def debugNetworkState_def debugNetworkMaps_def)

subsection \<open>The scenarios, evaluated\<close>

text \<open>
  Section 8, the collision scenario with a sweep in between: the record of pid 100, a
  sweep inside the staleness window, the record of pid 200. The table then shows the
  entry of pid 200 alone, and one collision was counted.
\<close>

lemma scenario_three_inputs:
  "active (run (NewEngine scenarioConfig [])
     [Ingest 10 (Some (scenarioEvent 100 Open 500)), Sweep 20,
      Ingest 25 (Some (scenarioEvent 200 StatsUpdate 70))])
   = [\<lparr> cs_tuple = scenarioTuple, cs_pid = 200, sent_bytes = 70, recv_bytes = 0,
        retransmits = 0, last_updated = 25, closed = False \<rparr>] \<and>
   pidCollisions (run (NewEngine scenarioConfig [])
     [Ingest 10 (Some (scenarioEvent 100 Open 500)), Sweep 20,
      Ingest 25 (Some (scenarioEvent 200 StatsUpdate 70))]) = 1 \<and>
   perfReceived (run (NewEngine scenarioConfig [])
     [Ingest 10 (Some (scenarioEvent 100 Open 500)), Sweep 20,
      Ingest 25 (Some (scenarioEvent 200 StatsUpdate 70))]) = 2"
  by (simp add: run_def processRecord_def Let_def excluded_def matches_def resolvePort_def
      upsert_def sweep_def stale_def NewEngine_def scenarioConfig_def scenarioTuple_def
      scenarioEvent_def ident_def freshConn_def)

text \<open>The table after the first record alone.\<close>

lemma scenario_first_open:
  "active (run (NewEngine scenarioConfig []) [Ingest 10 (Some (scenarioEvent 100 Open 500))])
   = [\<lparr> cs_tuple = scenarioTuple, cs_pid = 100, sent_bytes = 500, recv_bytes = 0,
        retransmits = 0, last_updated = 10, closed = False \<rparr>]"
  by (simp add: run_def processRecord_def Let_def excluded_def matches_def resolvePort_def
      upsert_def NewEngine_def scenarioConfig_def scenarioTuple_def
      scenarioEvent_def ident_def freshConn_def)

text \<open>
  Section 8, open, stats-update of 500 bytes sent, close: the table has no entry left
  and the buffer holds the one closed entry with its 500 bytes.
\<close>

lemma scenario_open_update_close:
  "active (run (NewEngine scenarioConfig [])
     [Ingest 10 (Some (scenarioEvent 100 Open 0)),
      Ingest 11 (Some (scenarioEvent 100 StatsUpdate 500)),
      Ingest 12 (Some (scenarioEvent 100 Close 0))]) = [] \<and>
   buffer (run (NewEngine scenarioConfig [])
     [Ingest 10 (Some (scenarioEvent 100 Open 0)),
      Ingest 11 (Some (scenarioEvent 100 StatsUpdate 500)),
      Ingest 12 (Some (scenarioEvent 100 Close 0))])
   = [\<lparr> cs_tuple = scenarioTuple, cs_pid = 100, sent_bytes = 500, recv_bytes = 0,
        retransmits = 0, last_updated = 11, closed = True \<rparr>]"
  by (simp add: run_def processRecord_def Let_def excluded_def matches_def resolvePort_def
      upsert_def remove_def appendClosed_def bufferAppend_def bump_def NewEngine_def
      scenarioConfig_def scenarioTuple_def scenarioEvent_def ident_def freshConn_def)

text \<open>A record of another connection between the two records of the collision.\<close>

lemma scenario_interleaved:
  "active (run (NewEngine scenarioConfig [])
     [Ingest 10 (Some (scenarioEvent 100 Open 500)), Sweep 20,
      Ingest 21 (Some ((scenarioEvent 300 Open 9)\<lparr>ev_tuple := scenarioTuple\<lparr>rport := 443\<rparr>\<rparr>))])
   = [\<lparr> cs_tuple = scenarioTuple, cs_pid = 100, sent_bytes = 500, recv_bytes = 0,
        retransmits = 0, last_updated = 10, closed = False \<rparr>,
      \<lparr> cs_tuple = scenarioTuple\<lparr>rport := 443\<rparr>, cs_pid = 300, sent_bytes = 9, recv_bytes = 0,
        retransmits = 0, last_updated = 21, closed = False \<rparr>]"
  by (simp add: run_def processRecord_def Let_def excluded_def matches_def resolvePort_def
      upsert_def sweep_def stale_def NewEngine_def scenarioConfig_def scenarioTuple_def
      scenarioEvent_def ident_def freshConn_def)

text \<open>
  Capacity 2: two connections opened and closed, a third one opened. The buffer is full
  and the table holds the third connection.
\<close>

lemma scenario_buffer_full:
  "buffer (run (NewEngine scenarioConfig [])
     [Ingest 10 (Some (scenarioEvent 100 Open 500)), Ingest 11 (Some (scenarioEvent 100 Close 0)),
      Ingest 12 (Some (scenarioEvent 101 Open 60)), Ingest 13 (Some (scenarioEvent 101 Close 0)),
      Ingest 14 (Some (scenarioEvent 102 Open 7))])
   = [\<lparr> cs_tuple = scenarioTuple, cs_pid = 100, sent_bytes = 500, recv_bytes = 0,
        retransmits = 0, last_updated = 10, closed = True \<rparr>,
      \<lparr> cs_tuple = scenarioTuple, cs_pid = 101, sent_bytes = 60, recv_bytes = 0,
        retransmits = 0, last_updated = 12, closed = True \<rparr>] \<and>
   active (run (NewEngine scenarioConfig [])
     [Ingest 10 (Some (scenarioEvent 100 Open 500)), Ingest 11 (Some (scenarioEvent 100 Close 0)),
      Ingest 12 (Some (scenarioEvent 101 Open 60)), Ingest 13 (Some (scenarioEvent 101 Close 0)),
      Ingest 14 (Some (scenarioEvent 102 Open 7))])
   = [\<lparr> cs_tuple = scenarioTuple, cs_pid = 102, sent_bytes = 7, recv_bytes = 0,
        retransmits = 0, last_updated = 14, closed = False \<rparr>]"
  by (simp add: run_def processRecord_def Let_def excluded_def matches_def resolvePort_def
      upsert_def remove_def appendClosed_def bufferAppend_def NewEngine_def
      scenarioConfig_def scenarioTuple_def scenarioEvent_def ident_def freshConn_def)

text \<open>What a client sees of a running engine after one record.\<close>

lemma scenario_service:
  "fst (getActiveConnections 20 ''client-1''
     (foldl serve (NewService scenarioConfig [])
        [Feed (Ingest 10 (Some (scenarioEvent 100 Open 500)))]))
   = (Some \<lparr> Conns = [\<lparr> cs_tuple = scenarioTuple, cs_pid = 100, sent_bytes = 500, recv_bytes = 0,
        retransmits = 0, last_updated = 10, closed = False \<rparr>],
        Telemetry = [(''perfReceived'', IInt 1), (''perfLost'', IInt 0), (''skippedConns'', IInt 0),
          (''pidCollisions'', IInt 0), (''expiredTCPConns'', IInt 0)] \<rparr>, None)"
  by (simp add: getActiveConnections_def feed_def NewService_def retained_def changedSince_def
      telemetry_def processRecord_def Let_def excluded_def matches_def resolvePort_def
      upsert_def NewEngine_def scenarioConfig_def scenarioTuple_def
      scenarioEvent_def ident_def freshConn_def)

section \<open>The engine of the specification: the claims\<close>

text \<open>
  C2. Once \<open>stop\<close> has been called, whatever happens afterwards (records, sweeps, further
  queries, further stops), each of the four queries returns the stopped-engine error and
  no data, neither partial nor empty, and the engine stays as \<open>stop\<close> left it.
\<close>

theorem stopped_engine_queries:
  "foldl serve (stop s) rs = stop s \<and>
   getActiveConnections now clientID (foldl serve (stop s) rs)
     = ((None, Some StoppedEngineError), foldl serve (stop s) rs) \<and>
   getStats (foldl serve (stop s) rs) = (None, Some StoppedEngineError) \<and>
   debugNetworkState clientID (foldl serve (stop s) rs) = (None, Some StoppedEngineError) \<and>
   debugNetworkMaps (foldl serve (stop s) rs) = (None, Some StoppedEngineError)"
proof -
  have fixed: "foldl serve (stop s) rs = stop s"
    by (rule foldl_serve_stopped) (rule phase_stop)
  show ?thesis
    unfolding fixed
    by (simp add: phase_stop getActiveConnections_def getStats_def debugNetworkState_def
        debugNetworkMaps_def)
qed

theorem stopped_engine_queries_witness:
  "getStats (NewService scenarioConfig []) \<noteq> (None, Some StoppedEngineError) \<and>
   getStats (foldl serve (stop (NewService scenarioConfig []))
      [Feed (Ingest 10 (Some (scenarioEvent 100 Open 500))), ReqGetActiveConnections 11 ''client-1'',
       ReqStop]) = (None, Some StoppedEngineError) \<and>
   debugNetworkMaps (foldl serve (stop (NewService scenarioConfig []))
      [Feed (Ingest 10 (Some (scenarioEvent 100 Open 500))), ReqGetActiveConnections 11 ''client-1'',
       ReqStop]) = (None, Some StoppedEngineError)"
proof -
  have running: "getStats (NewService scenarioConfig []) \<noteq> (None, Some StoppedEngineError)"
    by (simp add: getStats_def NewService_def)
  from running stopped_engine_queries [of "NewService scenarioConfig []"
      "[Feed (Ingest 10 (Some (scenarioEvent 100 Open 500))), ReqGetActiveConnections 11 ''client-1'',
       ReqStop]" 0 "[]"]
  show ?thesis by blast
qed

text \<open>
  C4. Whatever the sequence of ingested records and sweeps, no two entries of the active
  table have the same identity (tuple, pid). The property holds of the table of a new
  engine, and each operation on the table keeps it: \<open>upsert\<close>, \<open>remove\<close>, the handling
  of one record, a sweep, and any run.
\<close>

theorem active_table_unique_identities:
  "uniqueIdentities (active (run (NewEngine cfg pm) ins)) \<and>
   (uniqueIdentities (active e) \<longrightarrow>
      uniqueIdentities (active (upsert now i d e)) \<and>
      uniqueIdentities (active (snd (remove i e))) \<and>
      uniqueIdentities (active (processRecord now r e)) \<and>
      uniqueIdentities (active (sweep now e)) \<and>
      uniqueIdentities (active (run e ins)))"
  by (simp add: unique_run unique_NewEngine unique_upsert unique_remove unique_processRecord
      unique_sweep)

theorem active_table_unique_identities_witness:
  "uniqueIdentities (active (run (NewEngine scenarioConfig [])
     [Ingest 10 (Some (scenarioEvent 100 Open 500)), Sweep 20,
      Ingest 25 (Some (scenarioEvent 200 StatsUpdate 70))])) \<and>
   uniqueIdentities (active (NewEngine scenarioConfig [])) \<and>
   uniqueIdentities (active (upsert 10 (scenarioTuple, 100)
     \<lparr>d_sent = 500, d_recv = 0, d_retransmits = 0\<rparr> (NewEngine scenarioConfig [])))"
proof -
  have h: "uniqueIdentities (active (NewEngine scenarioConfig []))"
    by (simp add: NewEngine_def uniqueIdentities_def)
  from h active_table_unique_identities
    [where cfg = scenarioConfig and pm = "[]" and e = "NewEngine scenarioConfig []"
       and now = 10 and i = "(scenarioTuple, 100)"
       and d = "\<lparr>d_sent = 500, d_recv = 0, d_retransmits = 0\<rparr>"
       and ins = "[Ingest 10 (Some (scenarioEvent 100 Open 500)), Sweep 20,
                   Ingest 25 (Some (scenarioEvent 200 StatsUpdate 70))]"]
  show ?thesis by simp
qed

text \<open>
  C5. The bounded buffer never holds more entries than its capacity, and it is first in,
  first out. \<open>appendClosed\<close> is the only operation of the engine that writes the buffer.
  On a buffer within its capacity it leaves the last entries of the old buffer followed
  by the new entry, as many as the capacity allows: with room left nothing is given up,
  and on a full buffer (of a capacity above 0) exactly the oldest entry is given up,
  the others stay in order and the new entry comes last. The same holds of any sequence
  of appends, of the close of a tracked connection by the consumer, and of the expiry of
  a tracked connection by the sweeper. Every run of the engine keeps the buffer within
  the capacity supplied at construction. The last three conjuncts say the same of the
  list operation \<open>bufferAppend\<close> alone.
\<close>

theorem bounded_buffer_fifo:
  "(withinCapacity e \<longrightarrow>
      withinCapacity (appendClosed c e) \<and> withinCapacity (run e ins) \<and>
      buffer (appendClosed c e)
        = drop (Suc (length (buffer e)) - capacity e) (buffer e @ [c\<lparr>closed := True\<rparr>]) \<and>
      buffer (fold appendClosed cs e)
        = drop (length (buffer e) + length cs - capacity e)
            (buffer e @ map (\<lambda>c. c\<lparr>closed := True\<rparr>) cs)) \<and>
   (length (buffer e) < capacity e \<longrightarrow>
      buffer (appendClosed c e) = buffer e @ [c\<lparr>closed := True\<rparr>]) \<and>
   (length (buffer e) = capacity e \<and> 0 < capacity e \<longrightarrow>
      buffer (appendClosed c e) = tl (buffer e) @ [c\<lparr>closed := True\<rparr>] \<and>
      length (buffer (appendClosed c e)) = capacity e) \<and>
   (withinCapacity e \<and> ev_kind ev = Close \<and> \<not> excluded e (ev_tuple ev) \<and>
    find (\<lambda>c. ident c = (resolvePort (portMapping e) (ev_netns ev) (ev_tuple ev), ev_pid ev))
      (active e) = Some c \<longrightarrow>
      buffer (processRecord now (Some ev) e)
        = drop (Suc (length (buffer e)) - capacity e) (buffer e @ [c\<lparr>closed := True\<rparr>])) \<and>
   (withinCapacity e \<and> find (\<lambda>c'. ident c' = ident c) (active e) = Some c' \<longrightarrow>
      buffer (expire c e)
        = drop (Suc (length (buffer e)) - capacity e) (buffer e @ [c'\<lparr>closed := True\<rparr>])) \<and>
   length (buffer (run (NewEngine cfg pm) ins)) \<le> cfg_capacity cfg \<and>
   (length buf \<le> cap \<longrightarrow>
      length (foldl (bufferAppend cap) buf xs) \<le> cap \<and>
      foldl (bufferAppend cap) buf xs = drop (length buf + length xs - cap) (buf @ xs)) \<and>
   foldl (bufferAppend cap) [] xs = drop (length xs - cap) xs \<and>
   (length buf = cap \<and> 0 < cap \<longrightarrow>
      bufferAppend cap buf x = tl buf @ [x] \<and> length (bufferAppend cap buf x) = cap)"
proof -
  have a: "withinCapacity e \<longrightarrow>
      withinCapacity (appendClosed c e) \<and> withinCapacity (run e ins) \<and>
      buffer (appendClosed c e)
        = drop (Suc (length (buffer e)) - capacity e) (buffer e @ [c\<lparr>closed := True\<rparr>]) \<and>
      buffer (fold appendClosed cs e)
        = drop (length (buffer e) + length cs - capacity e)
            (buffer e @ map (\<lambda>c. c\<lparr>closed := True\<rparr>) cs)"
    using run_frame [of e ins]
    by (simp add: withinCapacity_appendClosed appendClosed_last fold_appendClosed_last)
  have b: "length (buffer e) < capacity e \<longrightarrow>
      buffer (appendClosed c e) = buffer e @ [c\<lparr>closed := True\<rparr>]"
    by (simp add: appendClosed_room)
  have c: "length (buffer e) = capacity e \<and> 0 < capacity e \<longrightarrow>
      buffer (appendClosed c e) = tl (buffer e) @ [c\<lparr>closed := True\<rparr>] \<and>
      length (buffer (appendClosed c e)) = capacity e"
    by (auto simp: appendClosed_full)
  have d: "withinCapacity e \<and> ev_kind ev = Close \<and> \<not> excluded e (ev_tuple ev) \<and>
    find (\<lambda>c. ident c = (resolvePort (portMapping e) (ev_netns ev) (ev_tuple ev), ev_pid ev))
      (active e) = Some c \<longrightarrow>
      buffer (processRecord now (Some ev) e)
        = drop (Suc (length (buffer e)) - capacity e) (buffer e @ [c\<lparr>closed := True\<rparr>])"
    using close_known_buffer [of ev e c now] by blast
  have e: "withinCapacity e \<and> find (\<lambda>c'. ident c' = ident c) (active e) = Some c' \<longrightarrow>
      buffer (expire c e)
        = drop (Suc (length (buffer e)) - capacity e) (buffer e @ [c'\<lparr>closed := True\<rparr>])"
    using expire_known_buffer [of c e c'] by blast
  have "withinCapacity (run (NewEngine cfg pm) ins)"
    using run_frame [of "NewEngine cfg pm" ins] withinCapacity_NewEngine by simp
  moreover have "capacity (run (NewEngine cfg pm) ins) = cfg_capacity cfg"
    using run_frame [of "NewEngine cfg pm" ins] by (simp add: NewEngine_def)
  ultimately have f: "length (buffer (run (NewEngine cfg pm) ins)) \<le> cfg_capacity cfg"
    by (simp add: withinCapacity_def)
  have g1: "length buf \<le> cap \<longrightarrow> length (foldl (bufferAppend cap) buf xs) \<le> cap"
    by (simp add: length_foldl_bufferAppend)
  have g2: "length buf \<le> cap \<longrightarrow>
      foldl (bufferAppend cap) buf xs = drop (length buf + length xs - cap) (buf @ xs)"
    by (simp add: foldl_bufferAppend_from)
  from g1 g2 have g: "length buf \<le> cap \<longrightarrow>
      length (foldl (bufferAppend cap) buf xs) \<le> cap \<and>
      foldl (bufferAppend cap) buf xs = drop (length buf + length xs - cap) (buf @ xs)"
    by blast
  have h: "foldl (bufferAppend cap) [] xs = drop (length xs - cap) xs"
    by (rule foldl_bufferAppend)
  have i: "length buf = cap \<and> 0 < cap \<longrightarrow>
      bufferAppend cap buf x = tl buf @ [x] \<and> length (bufferAppend cap buf x) = cap"
    by (auto simp: bufferAppend_full)
  show ?thesis
    by (intro conjI a b c d e f g h i)
qed

theorem bounded_buffer_fifo_witness:
  "buffer (processRecord 15 (Some (scenarioEvent 102 Close 0))
     (run (NewEngine scenarioConfig [])
       [Ingest 10 (Some (scenarioEvent 100 Open 500)), Ingest 11 (Some (scenarioEvent 100 Close 0)),
        Ingest 12 (Some (scenarioEvent 101 Open 60)), Ingest 13 (Some (scenarioEvent 101 Close 0)),
        Ingest 14 (Some (scenarioEvent 102 Open 7))]))
   = [\<lparr> cs_tuple = scenarioTuple, cs_pid = 101, sent_bytes = 60, recv_bytes = 0,
        retransmits = 0, last_updated = 12, closed = True \<rparr>,
      \<lparr> cs_tuple = scenarioTuple, cs_pid = 102, sent_bytes = 7, recv_bytes = 0,
        retransmits = 0, last_updated = 14, closed = True \<rparr>] \<and>
   foldl (bufferAppend 2) [] [1, 2, 3 :: nat] = [2, 3] \<and>
   bufferAppend 2 [1, 2 :: nat] 3 = [2, 3]"
proof -
  let ?ins = "[Ingest 10 (Some (scenarioEvent 100 Open 500)), Ingest 11 (Some (scenarioEvent 100 Close 0)),
        Ingest 12 (Some (scenarioEvent 101 Open 60)), Ingest 13 (Some (scenarioEvent 101 Close 0)),
        Ingest 14 (Some (scenarioEvent 102 Open 7))]"
  let ?e = "run (NewEngine scenarioConfig []) ?ins"
  let ?ev = "scenarioEvent 102 Close 0"
  let ?c = "\<lparr> cs_tuple = scenarioTuple, cs_pid = 102, sent_bytes = 7, recv_bytes = 0,
        retransmits = 0, last_updated = 14, closed = False \<rparr>"
  note b = scenario_buffer_full [THEN conjunct1]
  note ac = scenario_buffer_full [THEN conjunct2]
  have fr: "portMapping ?e = Some []" "sourceExcludes ?e = cfg_sourceExcludes scenarioConfig"
    "destExcludes ?e = cfg_destExcludes scenarioConfig" "capacity ?e = 2"
    using run_frame [of "NewEngine scenarioConfig []" ?ins]
    by (simp_all add: NewEngine_def scenarioConfig_def)
  have w: "withinCapacity ?e"
    unfolding withinCapacity_def b fr by simp
  have k: "ev_kind ?ev = Close"
    by (simp add: scenarioEvent_def)
  have a: "\<not> excluded ?e (ev_tuple ?ev)"
    unfolding excluded_def fr
    by (simp add: matches_def scenarioConfig_def scenarioEvent_def scenarioTuple_def)
  have f: "find (\<lambda>c. ident c = (resolvePort (portMapping ?e) (ev_netns ?ev) (ev_tuple ?ev), ev_pid ?ev))
             (active ?e) = Some ?c"
    unfolding fr ac by (simp add: resolvePort_def scenarioEvent_def ident_def)
  have full: "length (buffer ?e) = 2"
    unfolding b by simp
  from bounded_buffer_fifo
    [where e = ?e and ev = ?ev and c = ?c and now = 15 and cap = 2 and xs = "[1, 2, 3 :: nat]"
       and buf = "[1, 2 :: nat]" and x = 3]
    w k a f
  have "buffer (processRecord 15 (Some ?ev) ?e)
          = drop (Suc (length (buffer ?e)) - capacity ?e) (buffer ?e @ [?c\<lparr>closed := True\<rparr>])"
    and "foldl (bufferAppend 2) [] [1, 2, 3 :: nat] = drop (length [1, 2, 3 :: nat] - 2) [1, 2, 3]"
    and "bufferAppend 2 [1, 2 :: nat] 3 = tl [1, 2] @ [3]"
    by simp_all
  then show ?thesis
    unfolding full fr b by simp
qed

text \<open>
  C6, as the engine has it. An open or stats-update record that passes the filter arrives
  for a tuple that the table holds, and holds under other pids only (the entry of the
  earlier owner was neither closed nor expired). Then the table holds one entry for the
  tuple, it belongs to the pid of the record, its counters are the deltas of the record
  alone (nothing of the earlier owner is added), the pid-collision counter goes up by
  one, and the entries of all other tuples stay as they were.
\<close>

theorem pid_collision_keeps_latest_owner:
  assumes kind: "ev_kind ev \<noteq> Close"
    and admitted: "\<not> excluded e (ev_tuple ev)"
    and tuple: "resolvePort (portMapping e) (ev_netns ev) (ev_tuple ev) = t"
    and held: "\<exists>c \<in> set (active e). cs_tuple c = t"
    and other: "\<forall>c \<in> set (active e). cs_tuple c = t \<longrightarrow> cs_pid c \<noteq> ev_pid ev"
  shows "filter (\<lambda>c. cs_tuple c = t) (active (processRecord now (Some ev) e)) =
           [\<lparr> cs_tuple = t, cs_pid = ev_pid ev,
              sent_bytes = d_sent (ev_delta ev), recv_bytes = d_recv (ev_delta ev),
              retransmits = d_retransmits (ev_delta ev),
              last_updated = now, closed = False \<rparr>] \<and>
         pidCollisions (processRecord now (Some ev) e) = pidCollisions e + 1 \<and>
         filter (\<lambda>c. cs_tuple c \<noteq> t) (active (processRecord now (Some ev) e))
           = filter (\<lambda>c. cs_tuple c \<noteq> t) (active e)"
proof -
  let ?u = "e\<lparr>perfReceived := perfReceived e + 1\<rparr>"
  have p: "processRecord now (Some ev) e = upsert now (t, ev_pid ev) (ev_delta ev) ?u"
    using processRecord_upsert [OF kind admitted] tuple by simp
  have a: "\<exists>c \<in> set (active ?u). cs_tuple c = t"
    using held by simp
  have b: "\<forall>c \<in> set (active ?u). cs_tuple c = t \<longrightarrow> cs_pid c \<noteq> ev_pid ev"
    using other by simp
  from upsert_collision [OF a b, of now "ev_delta ev"] upsert_collision_others [OF b, of now "ev_delta ev"]
  show ?thesis
    by (simp add: p freshConn_def)
qed

theorem pid_collision_keeps_latest_owner_witness:
  "filter (\<lambda>c. cs_tuple c = scenarioTuple)
     (active (processRecord 25 (Some (scenarioEvent 200 StatsUpdate 70))
        (run (NewEngine scenarioConfig [])
           [Ingest 10 (Some (scenarioEvent 100 Open 500)), Sweep 20,
            Ingest 21 (Some ((scenarioEvent 300 Open 9)\<lparr>ev_tuple := scenarioTuple\<lparr>rport := 443\<rparr>\<rparr>))])))
     = [\<lparr> cs_tuple = scenarioTuple, cs_pid = 200, sent_bytes = 70, recv_bytes = 0,
          retransmits = 0, last_updated = 25, closed = False \<rparr>] \<and>
   pidCollisions (processRecord 25 (Some (scenarioEvent 200 StatsUpdate 70))
        (run (NewEngine scenarioConfig [])
           [Ingest 10 (Some (scenarioEvent 100 Open 500)), Sweep 20,
            Ingest 21 (Some ((scenarioEvent 300 Open 9)\<lparr>ev_tuple := scenarioTuple\<lparr>rport := 443\<rparr>\<rparr>))]))
     = pidCollisions
        (run (NewEngine scenarioConfig [])
           [Ingest 10 (Some (scenarioEvent 100 Open 500)), Sweep 20,
            Ingest 21 (Some ((scenarioEvent 300 Open 9)\<lparr>ev_tuple := scenarioTuple\<lparr>rport := 443\<rparr>\<rparr>))]) + 1"
proof -
  let ?ins = "[Ingest 10 (Some (scenarioEvent 100 Open 500)), Sweep 20,
            Ingest 21 (Some ((scenarioEvent 300 Open 9)\<lparr>ev_tuple := scenarioTuple\<lparr>rport := 443\<rparr>\<rparr>))]"
  let ?e = "run (NewEngine scenarioConfig []) ?ins"
  let ?ev = "scenarioEvent 200 StatsUpdate 70"
  have fr: "portMapping ?e = Some []" "sourceExcludes ?e = cfg_sourceExcludes scenarioConfig"
    "destExcludes ?e = cfg_destExcludes scenarioConfig"
    using run_frame [of "NewEngine scenarioConfig []" ?ins] by (simp_all add: NewEngine_def)
  have k: "ev_kind ?ev \<noteq> Close"
    by (simp add: scenarioEvent_def)
  have a: "\<not> excluded ?e (ev_tuple ?ev)"
    unfolding excluded_def fr
    by (simp add: matches_def scenarioConfig_def scenarioEvent_def scenarioTuple_def)
  have t: "resolvePort (portMapping ?e) (ev_netns ?ev) (ev_tuple ?ev) = scenarioTuple"
    unfolding fr by (simp add: resolvePort_def scenarioEvent_def)
  have h: "\<exists>c \<in> set (active ?e). cs_tuple c = scenarioTuple"
    unfolding scenario_interleaved by simp
  have o: "\<forall>c \<in> set (active ?e). cs_tuple c = scenarioTuple \<longrightarrow> cs_pid c \<noteq> ev_pid ?ev"
    unfolding scenario_interleaved by (simp add: scenarioEvent_def)
  from pid_collision_keeps_latest_owner [OF k a t h o, of 25]
  show ?thesis by (simp add: scenarioEvent_def)
qed

text \<open>
  The claim C6 as it is written speaks of any two events. It fails for a close: after an
  open by pid 100, a close by pid 200 for the same tuple leaves the entry of pid 100 and
  counts no collision. It fails for a tuple the filter excludes: two opens by pids 100
  and 200 from the loopback block never reach the table and count no collision.
\<close>

theorem pid_collision_counterexample:
  "map cs_pid (active (run (NewEngine scenarioConfig [])
     [Ingest 10 (Some (scenarioEvent 100 Open 500)),
      Ingest 11 (Some (scenarioEvent 200 Close 0))])) = [100] \<and>
   pidCollisions (run (NewEngine scenarioConfig [])
     [Ingest 10 (Some (scenarioEvent 100 Open 500)),
      Ingest 11 (Some (scenarioEvent 200 Close 0))]) = 0 \<and>
   active (run (NewEngine scenarioConfig [])
     [Ingest 10 (Some ((scenarioEvent 100 Open 500)\<lparr>ev_tuple := scenarioTuple\<lparr>laddr := 0x7F000001\<rparr>\<rparr>)),
      Ingest 11 (Some ((scenarioEvent 200 Open 70)\<lparr>ev_tuple := scenarioTuple\<lparr>laddr := 0x7F000001\<rparr>\<rparr>))])
     = [] \<and>
   pidCollisions (run (NewEngine scenarioConfig [])
     [Ingest 10 (Some ((scenarioEvent 100 Open 500)\<lparr>ev_tuple := scenarioTuple\<lparr>laddr := 0x7F000001\<rparr>\<rparr>)),
      Ingest 11 (Some ((scenarioEvent 200 Open 70)\<lparr>ev_tuple := scenarioTuple\<lparr>laddr := 0x7F000001\<rparr>\<rparr>))])
     = 0"
  by (simp add: run_def processRecord_def Let_def excluded_def matches_def resolvePort_def
      upsert_def remove_def NewEngine_def scenarioConfig_def scenarioTuple_def
      scenarioEvent_def ident_def freshConn_def)

text \<open>
  C7. A close record whose identity (tuple, pid) is not in the active table leaves the
  table and the buffer as they were; \<open>remove\<close> returns no entry and no error arises. The
  record still counts as received: \<^verbatim>\<open>perfReceived\<close> goes up by one (in 64-bit
  arithmetic). Apart from that counter only \<^verbatim>\<open>skippedConns\<close> can change, when the
  filter excludes the tuple.
\<close>

theorem close_of_unknown_identity:
  assumes "ev_kind ev = Close"
    and "(resolvePort (portMapping e) (ev_netns ev) (ev_tuple ev), ev_pid ev) \<notin> ident ` set (active e)"
  shows "active (processRecord now (Some ev) e) = active e \<and>
         buffer (processRecord now (Some ev) e) = buffer e \<and>
         perfReceived (processRecord now (Some ev) e) = perfReceived e + 1 \<and>
         remove (resolvePort (portMapping e) (ev_netns ev) (ev_tuple ev), ev_pid ev) e = (None, e) \<and>
         processRecord now (Some ev) e =
           (if excluded e (ev_tuple ev)
            then e\<lparr>perfReceived := perfReceived e + 1, skippedConns := skippedConns e + 1\<rparr>
            else e\<lparr>perfReceived := perfReceived e + 1\<rparr>)"
proof -
  let ?i = "(resolvePort (portMapping e) (ev_netns ev) (ev_tuple ev), ev_pid ev)"
  let ?u = "e\<lparr>perfReceived := perfReceived e + 1\<rparr>"
  have x: "excluded ?u (ev_tuple ev) = excluded e (ev_tuple ev)"
    by (simp add: excluded_def)
  have "?i \<notin> ident ` set (active ?u)" using assms(2) by simp
  then have r: "remove ?i ?u = (None, ?u)" by (rule remove_unknown)
  have p: "processRecord now (Some ev) e =
           (if excluded e (ev_tuple ev)
            then e\<lparr>perfReceived := perfReceived e + 1, skippedConns := skippedConns e + 1\<rparr>
            else e\<lparr>perfReceived := perfReceived e + 1\<rparr>)"
    using assms(1) r x by (simp add: processRecord_def Let_def)
  show ?thesis
    unfolding p using remove_unknown [OF assms(2)] by simp
qed

theorem close_of_unknown_identity_witness:
  "active (processRecord 12 (Some (scenarioEvent 999 Close 0))
      (run (NewEngine scenarioConfig []) [Ingest 10 (Some (scenarioEvent 100 Open 500))]))
     = active (run (NewEngine scenarioConfig []) [Ingest 10 (Some (scenarioEvent 100 Open 500))]) \<and>
   buffer (processRecord 12 (Some (scenarioEvent 999 Close 0))
      (run (NewEngine scenarioConfig []) [Ingest 10 (Some (scenarioEvent 100 Open 500))]))
     = buffer (run (NewEngine scenarioConfig []) [Ingest 10 (Some (scenarioEvent 100 Open 500))]) \<and>
   perfReceived (processRecord 12 (Some (scenarioEvent 999 Close 0))
      (run (NewEngine scenarioConfig []) [Ingest 10 (Some (scenarioEvent 100 Open 500))]))
     = perfReceived (run (NewEngine scenarioConfig []) [Ingest 10 (Some (scenarioEvent 100 Open 500))]) + 1"
proof -
  let ?e = "run (NewEngine scenarioConfig []) [Ingest 10 (Some (scenarioEvent 100 Open 500))]"
  let ?ev = "scenarioEvent 999 Close 0"
  have k: "ev_kind ?ev = Close"
    by (simp add: scenarioEvent_def)
  have pm: "portMapping ?e = Some []"
    using run_frame [of "NewEngine scenarioConfig []" "[Ingest 10 (Some (scenarioEvent 100 Open 500))]"]
    by (simp add: NewEngine_def)
  have u: "(resolvePort (portMapping ?e) (ev_netns ?ev) (ev_tuple ?ev), ev_pid ?ev)
             \<notin> ident ` set (active ?e)"
    unfolding pm scenario_first_open
    by (simp add: resolvePort_def scenarioEvent_def ident_def)
  from close_of_unknown_identity [OF k u, of 12]
  show ?thesis by simp
qed

end
